theory Spec2Isabelle
  imports Main "HOL-Library.Word" "HOL-Library.Monad_Syntax"
begin

unbundle bit_operations_syntax

section \<open>Bytes, buffers and running hashes\<close>

text \<open>
  A Go \<^verbatim>\<open>byte\<close> is an 8-bit word and a \<^verbatim>\<open>[]byte\<close> value is a list of them.
  A \<^verbatim>\<open>hash.Hash\<close> is modelled by the bytes written to it so far: \<^verbatim>\<open>h.Write(p)\<close>
  appends \<open>p\<close>, and \<^verbatim>\<open>h.Sum(nil)\<close> applies the digest function to what was written.
  The digest functions themselves (crypto/sha1, crypto/sha256) belong to the Go standard
  library and are parameters of the model.
\<close>

type_synonym byte = "8 word"

type_synonym digest = "byte list \<Rightarrow> byte list"

text \<open>
  \<^verbatim>\<open>copy(dst[off:], src)\<close> for \<open>off \<le> len(dst)\<close>: Go copies
  \<open>min(len(dst) - off, len(src))\<close> bytes and leaves the rest of \<open>dst\<close> alone.
\<close>

definition copy_at :: "byte list \<Rightarrow> nat \<Rightarrow> byte list \<Rightarrow> byte list" where
  "copy_at dst off src =
     (let n = min (length dst - off) (length src)
      in take off dst @ take n src @ drop (off + n) dst)"

text \<open>Go's integer division truncates towards zero.\<close>

definition go_div :: "int \<Rightarrow> int \<Rightarrow> int" where
  "go_div a b = sgn a * sgn b * (\<bar>a\<bar> div \<bar>b\<bar>)"

text \<open>
  A stand-in digest with an \<open>n\<close>-byte output (every output byte is the sum of the input
  bytes plus the input length). It is used only to run the model on concrete inputs; the
  theorems below hold for every digest function.
\<close>

definition sum_digest :: "nat \<Rightarrow> digest" where
  "sum_digest n xs = replicate n (sum_list xs + of_nat (length xs))"

section \<open>String-to-key derivation\<close>

text \<open>
  \<^verbatim>\<open>func decodeS2K(c byte) int { return (16 + int(c&15)) << (uint(c>>4) + 6) }\<close>
  The result is a Go \<^verbatim>\<open>int\<close>; it is at most \<open>31 * 2 ^ 21\<close> (lemma \<open>decodeS2K_bounds\<close>),
  so the shift never overflows, on 32-bit platforms either.
\<close>

definition decodeS2K :: "byte \<Rightarrow> int" where
  "decodeS2K c = push_bit (unat (drop_bit 4 c) + 6) (16 + uint (c AND 15))"

text \<open>
  The loop \<^verbatim>\<open>for i := 0; i < iterations; i++ { h.Write(full) }\<close> of \<^verbatim>\<open>s2k\<close>, on the
  bytes \<open>h\<close> written to the hash so far.
\<close>

function s2k_loop :: "int \<Rightarrow> int \<Rightarrow> byte list \<Rightarrow> byte list \<Rightarrow> byte list" where
  "s2k_loop i iterations full h =
     (if i < iterations then s2k_loop (i + 1) iterations full (h @ full) else h)"
  by pat_completeness auto
termination
  by (relation "measure (\<lambda>(i, iterations, full, h). nat (iterations - i))") auto

declare s2k_loop.simps [simp del]

text \<open>
  \<^verbatim>\<open>func s2k(passphrase, salt []byte, count int) []byte\<close>. The result is \<open>None\<close> where Go
  panics: \<^verbatim>\<open>full[:tail]\<close> with \<open>tail\<close> negative or beyond \<open>len(full)\<close> (the capacity of
  \<open>full\<close> is its length). \<open>len(full)\<close> is at least 8, so the division is defined.
\<close>

definition s2k :: "digest \<Rightarrow> byte list \<Rightarrow> byte list \<Rightarrow> int \<Rightarrow> byte list option" where
  "s2k H passphrase salt count =
     (let full0 = replicate (8 + length passphrase) 0;
          full1 = copy_at full0 0 salt;
          full = copy_at full1 8 passphrase;
          iterations = go_div count (int (length full));
          h = s2k_loop 0 iterations full [];
          tail = count - iterations * int (length full)
      in if tail < 0 \<or> int (length full) < tail then None
         else Some (H (h @ take (nat tail) full)))"


section \<open>Slices over a store of arrays\<close>

text \<open>
  \<^verbatim>\<open>SignKey.Packet\<close> keeps the slice it returns in the key (\<^verbatim>\<open>k.packet\<close>) and
  \<^verbatim>\<open>SignKey.EncPacket\<close> writes through a slice of the same backing array, so the
  functions that work on packets are modelled over an explicit store. The store is the
  list of the arrays allocated so far; an array's address is its position. Every slice
  that the modelled functions keep in a variable starts at the first element of its
  backing array, so a slice is an address and a length, and its capacity is the length of
  the array. A panic (index or slice bound out of range) is the result \<open>None\<close>.
\<close>

type_synonym heap = "byte list list"

record slice =
  arr :: nat
  len :: nat

definition cap :: "slice \<Rightarrow> heap \<Rightarrow> nat" where
  "cap p h = length (h ! arr p)"

text \<open>The bytes of a slice: \<open>p[0], \<dots>, p[len(p) - 1]\<close>.\<close>

definition bytes :: "slice \<Rightarrow> heap \<Rightarrow> byte list" where
  "bytes p h = take (len p) (h ! arr p)"

text \<open>\<open>write_at xs i vs\<close> overwrites \<open>xs\<close> from position \<open>i\<close> on with \<open>vs\<close>.\<close>

definition write_at :: "byte list \<Rightarrow> nat \<Rightarrow> byte list \<Rightarrow> byte list" where
  "write_at xs i vs = take i xs @ vs @ drop (i + length vs) xs"

definition upd :: "nat \<Rightarrow> (byte list \<Rightarrow> byte list) \<Rightarrow> heap \<Rightarrow> heap" where
  "upd a f h = h[a := f (h ! a)]"

text \<open>\<^verbatim>\<open>make([]byte, n, c)\<close>: a new zeroed array of \<open>c\<close> bytes.\<close>

definition make_slice :: "nat \<Rightarrow> nat \<Rightarrow> heap \<Rightarrow> slice \<times> heap" where
  "make_slice n c h = (\<lparr>arr = length h, len = n\<rparr>, h @ [replicate c 0])"

text \<open>\<^verbatim>\<open>p[i] = v\<close> panics unless \<open>i < len(p)\<close>.\<close>

definition store :: "slice \<Rightarrow> nat \<Rightarrow> byte \<Rightarrow> heap \<Rightarrow> heap option" where
  "store p i v h = (if i < len p then Some (upd (arr p) (\<lambda>xs. write_at xs i [v]) h) else None)"

text \<open>\<^verbatim>\<open>p[:n]\<close> panics unless \<open>n \<le> cap(p)\<close>.\<close>

definition reslice :: "slice \<Rightarrow> nat \<Rightarrow> heap \<Rightarrow> slice option" where
  "reslice p n h = (if n \<le> cap p h then Some (p\<lparr>len := n\<rparr>) else None)"

text \<open>
  The bytes of \<^verbatim>\<open>p[lo:hi]\<close>, which panics unless \<open>lo \<le> hi \<le> cap(p)\<close>, and of
  \<^verbatim>\<open>p[lo:]\<close>, which panics unless \<open>lo \<le> len(p)\<close>.
\<close>

definition slice_read :: "slice \<Rightarrow> nat \<Rightarrow> nat \<Rightarrow> heap \<Rightarrow> byte list option" where
  "slice_read p lo hi h =
     (if lo \<le> hi \<and> hi \<le> cap p h then Some (take (hi - lo) (drop lo (h ! arr p))) else None)"

definition slice_from :: "slice \<Rightarrow> nat \<Rightarrow> heap \<Rightarrow> byte list option" where
  "slice_from p lo h = (if lo \<le> len p then slice_read p lo (len p) h else None)"

text \<open>
  \<^verbatim>\<open>copy(p[lo:hi], src)\<close> and \<^verbatim>\<open>copy(p[lo:], src)\<close>: the slice expression may panic;
  \<^verbatim>\<open>copy\<close> writes \<open>min(hi - lo, len(src))\<close> bytes.
\<close>

definition copy_range :: "slice \<Rightarrow> nat \<Rightarrow> nat \<Rightarrow> byte list \<Rightarrow> heap \<Rightarrow> heap option" where
  "copy_range p lo hi src h =
     (if lo \<le> hi \<and> hi \<le> cap p h
      then Some (upd (arr p) (\<lambda>xs. write_at xs lo (take (hi - lo) src)) h) else None)"

definition copy_from :: "slice \<Rightarrow> nat \<Rightarrow> byte list \<Rightarrow> heap \<Rightarrow> heap option" where
  "copy_from p lo src h = (if lo \<le> len p then copy_range p lo (len p) src h else None)"

text \<open>Big-endian encodings, as \<^verbatim>\<open>encoding/binary\<close> writes them.\<close>

definition be16 :: "16 word \<Rightarrow> byte list" where
  "be16 v = [ucast (drop_bit 8 v), ucast v]"

definition be32 :: "32 word \<Rightarrow> byte list" where
  "be32 v = [ucast (drop_bit 24 v), ucast (drop_bit 16 v), ucast (drop_bit 8 v), ucast v]"

text \<open>
  \<^verbatim>\<open>binary.BigEndian.PutUint16(p[lo:], v)\<close> and \<^verbatim>\<open>PutUint32(p[lo:], v)\<close> panic unless
  \<open>p[lo:]\<close> has 2 (4) bytes.
\<close>

definition PutUint16 :: "slice \<Rightarrow> nat \<Rightarrow> 16 word \<Rightarrow> heap \<Rightarrow> heap option" where
  "PutUint16 p lo v h =
     (if lo + 2 \<le> len p then Some (upd (arr p) (\<lambda>xs. write_at xs lo (be16 v)) h) else None)"

definition PutUint32 :: "slice \<Rightarrow> nat \<Rightarrow> 32 word \<Rightarrow> heap \<Rightarrow> heap option" where
  "PutUint32 p lo v h =
     (if lo + 4 \<le> len p then Some (upd (arr p) (\<lambda>xs. write_at xs lo (be32 v)) h) else None)"

text \<open>
  \<^verbatim>\<open>append(p, xs...)\<close> writes behind the slice in its own backing array when the capacity
  suffices. Otherwise it allocates a new array and copies; the new capacity is chosen by
  the Go runtime (parameter \<open>grow\<close>, from the old capacity and the length needed) and is
  at least the length needed.
\<close>

definition append_slice ::
  "(nat \<Rightarrow> nat \<Rightarrow> nat) \<Rightarrow> slice \<Rightarrow> byte list \<Rightarrow> heap \<Rightarrow> slice \<times> heap" where
  "append_slice grow p xs h =
     (let n = len p + length xs
      in if n \<le> cap p h
         then (p\<lparr>len := n\<rparr>, upd (arr p) (\<lambda>ys. write_at ys (len p) xs) h)
         else (\<lparr>arr = length h, len = n\<rparr>,
               h @ [bytes p h @ xs @ replicate (max n (grow (cap p h) n) - n) 0]))"

section \<open>What the model takes from outside the source file\<close>

text \<open>
  The functions below are called by the code but not defined in it. Those of the Go
  standard library and of \<^verbatim>\<open>golang.org/x/crypto\<close> are parameters of the model, and so are
  the helpers of package \<^verbatim>\<open>openpgp\<close> whose definitions are in files that are not part of
  the source at hand (\<^verbatim>\<open>mpi\<close>, \<^verbatim>\<open>mpiDecode\<close>, \<^verbatim>\<open>checksum\<close>, \<^verbatim>\<open>marshal32be\<close>, \<^verbatim>\<open>Armor\<close>,
  \<^verbatim>\<open>ParsePacket\<close>). A theorem states what it needs of them as a hypothesis.
\<close>

text \<open>
  What a call of \<^verbatim>\<open>mpiDecode(buf, 32)\<close> does: it panics, or it returns \<open>(data, tail)\<close>,
  where \<open>data\<close> may be \<^verbatim>\<open>nil\<close> (\<open>None\<close>). A \<^verbatim>\<open>nil\<close> tail is the empty list (the code only
  takes its length and compares its bytes).
\<close>

datatype mpi_result = MpiPanic | MpiReturn "byte list option" "byte list"

record env =
  sha1 :: digest  \<comment> \<open>crypto/sha1: 20 bytes\<close>
  sha256 :: digest  \<comment> \<open>crypto/sha256: 32 bytes\<close>
  ed25519_public :: "byte list \<Rightarrow> byte list"
    \<comment> \<open>the 32-byte public key of a 32-byte seed: \<^verbatim>\<open>NewKeyFromSeed(seed)\<close> is seed || public key\<close>
  ed25519_sign :: "byte list \<Rightarrow> byte list \<Rightarrow> byte list"
    \<comment> \<open>\<^verbatim>\<open>ed25519.Sign(privateKey, message)\<close>: 64 bytes\<close>
  cfb_encrypt :: "byte list \<Rightarrow> byte list \<Rightarrow> byte list \<Rightarrow> byte list"
    \<comment> \<open>AES-CFB encryption of the data under a key and an initialization vector\<close>
  cfb_decrypt :: "byte list \<Rightarrow> byte list \<Rightarrow> byte list \<Rightarrow> byte list"
  growcap :: "nat \<Rightarrow> nat \<Rightarrow> nat"  \<comment> \<open>the capacity \<^verbatim>\<open>append\<close> grows to\<close>
  mpi :: "byte list \<Rightarrow> byte list"  \<comment> \<open>a new slice holding the MPI encoding\<close>
  mpiDecode :: "byte list \<Rightarrow> nat \<Rightarrow> mpi_result"
  checksum :: "byte list \<Rightarrow> 16 word"
  marshal32be :: "32 word \<Rightarrow> byte list"
  Armor :: "byte list \<Rightarrow> byte list"
  ParsePacket :: "byte list \<Rightarrow> byte list"  \<comment> \<open>the body of the packet parsed, errors ignored\<close>

section \<open>Sign keys\<close>

datatype error = InvalidPacketErr | UnsupportedPacketErr | DecryptKeyErr | ReadErr string

text \<open>
  \<^verbatim>\<open>type SignKey struct { Key ed25519.PrivateKey; created int64; expires int64; packet []byte }\<close>
  \<open>Key\<close> is a byte slice that is never written to after \<^verbatim>\<open>NewKeyFromSeed\<close> made it, so it
  is held as its bytes (\<^verbatim>\<open>nil\<close> is the empty list); \<open>packet\<close> is a slice into the store
  (\<^verbatim>\<open>nil\<close> is \<open>None\<close>).
\<close>

record SignKey =
  Key :: "byte list"
  created :: "64 word"
  expires :: "64 word"
  packet :: "slice option"

definition SignKeyPubLen :: nat where
  "SignKeyPubLen = 53"

definition signKeySecLen :: nat where
  "signKeySecLen = 3 + 32 + 2"

definition s2kCount :: byte where
  "s2kCount = 0xff"

text \<open>
  \<^verbatim>\<open>k.Key = ed25519.NewKeyFromSeed(seed); k.packet = nil\<close>. \<^verbatim>\<open>NewKeyFromSeed\<close> panics
  unless the seed has 32 bytes.
\<close>

definition Seed :: "env \<Rightarrow> byte list \<Rightarrow> SignKey \<Rightarrow> SignKey option" where
  "Seed e seed k =
     (if length seed \<noteq> 32 then None
      else Some (k\<lparr>Key := seed @ ed25519_public e seed, packet := None\<rparr>))"

definition SetCreated :: "64 word \<Rightarrow> SignKey \<Rightarrow> SignKey" where
  "SetCreated time k = k\<lparr>created := time, packet := None\<rparr>"

text \<open>\<^verbatim>\<open>k.Key[:32]\<close> and \<^verbatim>\<open>k.Key[32:]\<close>; both panic on a key shorter than 32 bytes.\<close>

definition Seckey :: "SignKey \<Rightarrow> byte list option" where
  "Seckey k = (if length (Key k) < 32 then None else Some (take 32 (Key k)))"

definition Pubkey :: "SignKey \<Rightarrow> byte list option" where
  "Pubkey k = (if length (Key k) < 32 then None else Some (drop 32 (Key k)))"

definition oid :: "byte list" where
  "oid = [0x2b, 0x06, 0x01, 0x04, 0x01, 0xda, 0x47, 0x0f, 0x01]"

text \<open>
  \<^verbatim>\<open>func (k *SignKey) Packet() []byte\<close>: the cached slice if there is one; otherwise the
  packet is built in a new array of capacity 90, stored in \<open>k.packet\<close> and returned.
\<close>

definition Packet :: "env \<Rightarrow> SignKey \<Rightarrow> heap \<Rightarrow> (slice \<times> SignKey \<times> heap) option" where
  "Packet e k h =
     (case packet k of
        Some p \<Rightarrow> Some (p, k, h)
      | None \<Rightarrow> do {
          let (p, h) = make_slice (SignKeyPubLen + 1) (SignKeyPubLen + signKeySecLen) h;
          h \<leftarrow> store p 0 (0xc0 OR 5) h;
          h \<leftarrow> store p 2 0x04 h;
          h \<leftarrow> PutUint32 p 3 (ucast (created k)) h;
          h \<leftarrow> store p 7 22 h;
          h \<leftarrow> store p 8 9 h;
          h \<leftarrow> copy_from p 9 oid h;
          h \<leftarrow> PutUint16 p 18 263 h;
          h \<leftarrow> store p 20 0x40 h;
          pub \<leftarrow> Pubkey k;
          h \<leftarrow> copy_range p 21 53 pub h;
          h \<leftarrow> store p 53 0 h;
          sec \<leftarrow> Seckey k;
          let mpikey = mpi e sec;
          let (p, h) = append_slice (growcap e) p mpikey h;
          p \<leftarrow> reslice p (len p + 2) h;
          h \<leftarrow> PutUint16 p (len p - 2) (checksum e mpikey) h;
          h \<leftarrow> store p 1 (of_nat (len p - 2)) h;
          Some (p, k\<lparr>packet := Some p\<rparr>, h)
        })"

text \<open>\<^verbatim>\<open>func (k *SignKey) PubPacket() []byte\<close>: a new array, filled from \<open>k.Packet()[2:]\<close>.\<close>

definition PubPacket :: "env \<Rightarrow> SignKey \<Rightarrow> heap \<Rightarrow> (slice \<times> SignKey \<times> heap) option" where
  "PubPacket e k h = do {
     let (q, h) = make_slice SignKeyPubLen SignKeyPubLen h;
     h \<leftarrow> store q 0 (0xc0 OR 6) h;
     h \<leftarrow> store q 1 (of_nat (SignKeyPubLen - 2)) h;
     (p, k, h) \<leftarrow> Packet e k h;
     src \<leftarrow> slice_from p 2 h;
     h \<leftarrow> copy_from q 2 src h;
     Some (q, k, h)
   }"

text \<open>
  \<^verbatim>\<open>aes.NewCipher(key)\<close> followed by \<^verbatim>\<open>cipher.NewCFBEncrypter(block, iv)\<close> (or
  \<^verbatim>\<open>NewCFBDecrypter\<close>) and \<^verbatim>\<open>XORKeyStream(data, data)\<close>. The error of \<^verbatim>\<open>NewCipher\<close> on a
  key that has not 16, 24 or 32 bytes is dropped by the code, and the \<^verbatim>\<open>nil\<close> block makes
  the next call panic, as an initialization vector that has not 16 bytes does.
\<close>

definition aes_cfb ::
  "(byte list \<Rightarrow> byte list \<Rightarrow> byte list \<Rightarrow> byte list) \<Rightarrow> byte list \<Rightarrow> byte list \<Rightarrow> byte list
     \<Rightarrow> byte list option" where
  "aes_cfb stream key iv data =
     (if length key \<notin> {16, 24, 32} \<or> length iv \<noteq> 16 then None else Some (stream key iv data))"

text \<open>
  \<^verbatim>\<open>func (k *SignKey) EncPacket(passphrase []byte) []byte\<close>. \<open>rnd\<close> is what
  \<^verbatim>\<open>rand.Read(saltIV[:])\<close> delivers: the 24 random bytes, or \<open>None\<close> for an error, on which
  the code panics. \<^verbatim>\<open>k.Packet()[:57]\<close> is a slice of the array that \<open>k.packet\<close> points to.
\<close>

definition EncPacket ::
  "env \<Rightarrow> byte list option \<Rightarrow> byte list \<Rightarrow> SignKey \<Rightarrow> heap \<Rightarrow> (slice \<times> SignKey \<times> heap) option" where
  "EncPacket e rnd passphrase k h = do {
     saltIV \<leftarrow> rnd;
     let salt = take 8 saltIV;
     let iv = drop 8 saltIV;
     key \<leftarrow> s2k (sha256 e) passphrase salt (decodeS2K s2kCount);
     sec \<leftarrow> Seckey k;
     let mpikey = mpi e sec;
     let seckey = mpikey @ sha1 e mpikey;
     seckey \<leftarrow> aes_cfb (cfb_encrypt e) key iv seckey;
     (p, k, h) \<leftarrow> Packet e k h;
     p \<leftarrow> reslice p 57 h;
     h \<leftarrow> store p 53 254 h;
     h \<leftarrow> store p 54 9 h;
     h \<leftarrow> store p 55 3 h;
     h \<leftarrow> store p 56 8 h;
     let (p, h) = append_slice (growcap e) p salt h;
     let (p, h) = append_slice (growcap e) p [s2kCount] h;
     let (p, h) = append_slice (growcap e) p iv h;
     let (p, h) = append_slice (growcap e) p seckey h;
     h \<leftarrow> store p 1 (of_nat (len p - 2)) h;
     Some (p, k, h)
   }"

text \<open>\<^verbatim>\<open>func (k *SignKey) KeyID() []byte\<close>\<close>

definition KeyID :: "env \<Rightarrow> SignKey \<Rightarrow> heap \<Rightarrow> (byte list \<times> SignKey \<times> heap) option" where
  "KeyID e k h = do {
     (p, k, h) \<leftarrow> Packet e k h;
     body \<leftarrow> slice_read p 2 SignKeyPubLen h;
     Some (sha1 e ([0x99, 0, 51] @ body), k, h)
   }"

section \<open>Signatures\<close>

text \<open>\<^verbatim>\<open>type subpacket struct { Type byte; Data []byte }\<close>\<close>

record subpacket =
  Type :: byte
  Data :: "byte list"

text \<open>
  \<^verbatim>\<open>type sigInput struct { h hash.Hash; sigtype byte; when int64; subpackets []subpacket }\<close>
  The field \<open>h\<close> is the hash the caller has written the signed content to; \<open>hashed\<close> is
  what it was given so far.
\<close>

record sigInput =
  hashed :: "byte list"
  sigtype :: byte
  sigtime :: "64 word"
  subpackets :: "subpacket list"

text \<open>\<^verbatim>\<open>func fingerprint(keyid []byte) subpacket\<close>\<close>

definition fingerprint :: "byte list \<Rightarrow> subpacket" where
  "fingerprint keyid = \<lparr>Type = 33, Data = [0x04] @ keyid\<rparr>"

text \<open>
  The loop of \<^verbatim>\<open>sign\<close> over the subpackets: each one is appended to the packet as the
  byte \<open>len(Data) + 1\<close>, the type and the data.
\<close>

fun append_subpackets ::
  "(nat \<Rightarrow> nat \<Rightarrow> nat) \<Rightarrow> subpacket list \<Rightarrow> slice \<Rightarrow> heap \<Rightarrow> slice \<times> heap" where
  "append_subpackets g [] p h = (p, h)"
| "append_subpackets g (sp # sps) p h =
     (let (p, h) = append_slice g p [of_nat (length (Data sp) + 1)] h;
          (p, h) = append_slice g p [Type sp] h;
          (p, h) = append_slice g p (Data sp) h
      in append_subpackets g sps p h)"

text \<open>
  \<^verbatim>\<open>func (k *SignKey) sign(in sigInput) []byte\<close>, in two parts. \<open>sign_prepare\<close> is the
  function up to the second \<^verbatim>\<open>h.Write\<close>: it returns the packet buffer and all the bytes
  written to the hash. \<open>hashedLen\<close> is a \<^verbatim>\<open>uint16\<close>, and so are \<open>hashedLen + 8\<close> and
  \<open>hashedLen + 6\<close>.
\<close>

definition sign_prepare ::
  "env \<Rightarrow> sigInput \<Rightarrow> SignKey \<Rightarrow> heap \<Rightarrow> (slice \<times> byte list \<times> SignKey \<times> heap) option" where
  "sign_prepare e inp k h = do {
     let (p, h) = make_slice 8 257 h;
     h \<leftarrow> store p 0 (0xc0 OR 2) h;
     h \<leftarrow> store p 2 0x04 h;
     h \<leftarrow> store p 3 (sigtype inp) h;
     h \<leftarrow> store p 4 22 h;
     h \<leftarrow> store p 5 8 h;
     let sigCreated = \<lparr>Type = 2, Data = marshal32be e (ucast (sigtime inp))\<rparr>;
     (keyid, k, h) \<leftarrow> KeyID e k h;
     issuerData \<leftarrow> (if length keyid < 20 then None else Some (take 8 (drop 12 keyid)));
     let issuer = \<lparr>Type = 16, Data = issuerData\<rparr>;
     let (p, h) = append_subpackets (growcap e) ([sigCreated, issuer] @ subpackets inp) p h;
     let hashedLen = (of_nat (len p - 8) :: 16 word);
     h \<leftarrow> PutUint16 p 6 hashedLen h;
     p \<leftarrow> reslice p (len p + 2) h;
     h \<leftarrow> PutUint16 p (len p - 2) 0 h;
     part \<leftarrow> slice_read p 2 (unat (hashedLen + 8)) h;
     Some (p, hashed inp @ part @ [4, 0xff, 0, 0, 0, ucast (hashedLen + 6)], k, h)
   }"

definition sign :: "env \<Rightarrow> sigInput \<Rightarrow> SignKey \<Rightarrow> heap \<Rightarrow> (slice \<times> SignKey \<times> heap) option" where
  "sign e inp k h = do {
     (p, written, k, h) \<leftarrow> sign_prepare e inp k h;
     let sigsum = sha256 e written;
     sig \<leftarrow> (if length (Key k) \<noteq> 64 then None else Some (ed25519_sign e (Key k) sigsum));
     preview \<leftarrow> (if length sigsum < 2 then None else Some (take 2 sigsum));
     let (p, h) = append_slice (growcap e) p preview h;
     r \<leftarrow> (if length sig < 32 then None else Some (take 32 sig));
     let (p, h) = append_slice (growcap e) p (mpi e r) h;
     let m = drop 32 sig;
     let (p, h) = append_slice (growcap e) p (mpi e m) h;
     h \<leftarrow> store p 1 (of_nat (len p) - 2) h;
     Some (p, k, h)
   }"

text \<open>
  The hash prefix of a certification or binding: \<^verbatim>\<open>h.Write([]byte{0x99, 0, byte(len(pkt) - 2)})\<close>
  and \<^verbatim>\<open>h.Write(pkt[2:])\<close>, where the second panics on a packet of less than two bytes.
\<close>

definition framed_key :: "byte list \<Rightarrow> byte list option" where
  "framed_key pkt =
     (if length pkt < 2 then None
      else Some ([0x99, 0, of_int (int (length pkt) - 2)] @ drop 2 pkt))"

text \<open>
  \<^verbatim>\<open>type EncryptKey\<close> is declared in another file; \<^verbatim>\<open>Bind\<close> reads its fields \<open>created\<close>
  and \<open>expires\<close> and calls \<^verbatim>\<open>subkey.PubPacket()\<close>, whose result is the third field here.
\<close>

record EncryptKey =
  sub_created :: "64 word"
  sub_expires :: "64 word"
  sub_pubpacket :: "byte list"

text \<open>\<^verbatim>\<open>func (k *SignKey) Bind(subkey *EncryptKey, when int64) []byte\<close>\<close>

definition Bind ::
  "env \<Rightarrow> EncryptKey \<Rightarrow> 64 word \<Rightarrow> SignKey \<Rightarrow> heap \<Rightarrow> (slice \<times> SignKey \<times> heap) option" where
  "Bind e subkey when' k h = do {
     (pubkey, k, h) \<leftarrow> PubPacket e k h;
     w1 \<leftarrow> framed_key (bytes pubkey h);
     w2 \<leftarrow> framed_key (sub_pubpacket subkey);
     let subs = [\<lparr>Type = 27, Data = [0x0c]\<rparr>];
     let subs = (if sub_expires subkey \<noteq> 0
                 then subs @ [\<lparr>Type = 9, Data = marshal32be e
                                 (ucast (sub_expires subkey - sub_created subkey))\<rparr>]
                 else subs);
     sign e \<lparr>hashed = w1 @ w2, sigtype = 0x18, sigtime = when', subpackets = subs\<rparr> k h
   }"

text \<open>
  \<^verbatim>\<open>FlagMDC = iota\<close> is the third constant of its \<^verbatim>\<open>const\<close> block, so its value is 2.
\<close>

definition FlagMDC :: int where
  "FlagMDC = 2"

text \<open>
  \<^verbatim>\<open>func (k *SignKey) SelfSign(userid *UserID, when int64, flags int) []byte\<close>. \<open>uid\<close> is what
  \<^verbatim>\<open>userid.Packet()\<close> returns (\<^verbatim>\<open>type UserID\<close> is declared in another file).
\<close>

definition SelfSign ::
  "env \<Rightarrow> byte list \<Rightarrow> 64 word \<Rightarrow> int \<Rightarrow> SignKey \<Rightarrow> heap \<Rightarrow> (slice \<times> SignKey \<times> heap) option" where
  "SelfSign e uid when' flags k h = do {
     (key, k, h) \<leftarrow> PubPacket e k h;
     w1 \<leftarrow> framed_key (bytes key h);
     w2 \<leftarrow> (if length uid < 2 then None
            else Some ([0xb4, 0, 0, 0, of_int (int (length uid) - 2)] @ drop 2 uid));
     let subs = [\<lparr>Type = 27, Data = [0x03]\<rparr>];
     let subs = (if expires k \<noteq> 0
                 then subs @ [\<lparr>Type = 9, Data = marshal32be e (ucast (expires k - created k))\<rparr>]
                 else subs);
     let subs = (if flags AND FlagMDC \<noteq> 0 then subs @ [\<lparr>Type = 30, Data = [0x01]\<rparr>] else subs);
     sign e \<lparr>hashed = w1 @ w2, sigtype = 0x13, sigtime = when', subpackets = subs\<rparr> k h
   }"

text \<open>\<^verbatim>\<open>func (k *SignKey) Certify(key, uid []byte, when int64) []byte\<close>\<close>

definition Certify ::
  "env \<Rightarrow> byte list \<Rightarrow> byte list \<Rightarrow> 64 word \<Rightarrow> SignKey \<Rightarrow> heap
     \<Rightarrow> (slice \<times> SignKey \<times> heap) option" where
  "Certify e key uid when' k h = do {
     let keybody = ParsePacket e key;
     let w1 = [0x99] @ be16 (of_nat (length keybody)) @ keybody;
     let uidbody = ParsePacket e uid;
     let w2 = [0xb4] @ be32 (of_nat (length uidbody)) @ uidbody;
     (keyid, k, h) \<leftarrow> KeyID e k h;
     sign e \<lparr>hashed = w1 @ w2, sigtype = 0x10, sigtime = when',
             subpackets = [fingerprint keyid]\<rparr> k h
   }"

text \<open>
  An \<^verbatim>\<open>io.Reader\<close> is modelled by what reading it to the end delivers: the bytes, and the
  error (other than end of input) that ended the reading, if any.
\<close>

record reader =
  content :: "byte list"
  failure :: "error option"

text \<open>
  \<^verbatim>\<open>func (k *SignKey) Sign(src io.Reader) ([]byte, error)\<close>. \<open>now\<close> is what
  \<^verbatim>\<open>time.Now().Unix()\<close> returns when the function runs. The result is \<open>Inl err\<close> for
  \<^verbatim>\<open>return nil, err\<close> and \<open>Inr packet\<close> for \<^verbatim>\<open>return packet, nil\<close>.
\<close>

definition Sign ::
  "env \<Rightarrow> 64 word \<Rightarrow> reader \<Rightarrow> SignKey \<Rightarrow> heap \<Rightarrow> ((error + slice) \<times> SignKey \<times> heap) option" where
  "Sign e now src k h =
     (case failure src of
        Some err \<Rightarrow> Some (Inl err, k, h)
      | None \<Rightarrow> do {
          (keyid, k, h) \<leftarrow> KeyID e k h;
          (p, k, h) \<leftarrow> sign e \<lparr>hashed = content src, sigtype = 0x00, sigtime = now,
                                  subpackets = [fingerprint keyid]\<rparr> k h;
          Some (Inr p, k, h)
        })"

section \<open>Cleartext signatures\<close>

text \<open>
  The loop that removes trailing spaces and tabs:
  \<^verbatim>\<open>for i := len(line) - 1; i >= 0; i-- { if line[i] == 0x20 || line[i] == 0x09 { line = line[:i] } else { break } }\<close>
  At every test \<open>i = len(line) - 1\<close>, so \<open>line[i]\<close> is in range.
\<close>

function trim_loop :: "byte list \<Rightarrow> int \<Rightarrow> byte list" where
  "trim_loop line i =
     (if 0 \<le> i
      then (if line ! nat i = 0x20 \<or> line ! nat i = 0x09
            then trim_loop (take (nat i) line) (i - 1)
            else line)
      else line)"
  by pat_completeness auto
termination
  by (relation "measure (\<lambda>(line, i). nat (i + 1))") auto

declare trim_loop.simps [simp del]

text \<open>
  The writing end of the \<^verbatim>\<open>io.Pipe\<close>: the bytes the reader has received, and the number of
  further \<^verbatim>\<open>Write\<close> calls that succeed before the reader closes its end (or the writer
  closes the pipe with an error). A failed write is \<open>None\<close>: the goroutine returns.
\<close>

type_synonym pipe = "byte list \<times> nat"

definition pipe_write :: "byte list \<Rightarrow> pipe \<Rightarrow> pipe option" where
  "pipe_write xs w = (case w of (out, n) \<Rightarrow> if n = 0 then None else Some (out @ xs, n - 1))"

text \<open>
  One turn of the loop \<^verbatim>\<open>for s.Scan() { \<dots> }\<close> on the line \<^verbatim>\<open>s.Bytes()\<close>: the state is
  the bytes written to the hash, the flag \<open>first\<close> and the pipe.
\<close>

definition clearsign_line ::
  "byte list \<Rightarrow> byte list \<times> bool \<times> pipe \<Rightarrow> (byte list \<times> bool \<times> pipe) option" where
  "clearsign_line line0 st =
     (case st of (hw, first, w) \<Rightarrow>
        let line = trim_loop line0 (int (length line0) - 1);
            hw = (if \<not> first then hw @ [0x0d, 0x0a] else hw);
            hw = hw @ line;
            tmp = (if 0 < length line \<and> line ! 0 = 0x2d then [0x2d, 0x20] else []);
            tmp = tmp @ line;
            tmp = tmp @ [0x0a]
        in case pipe_write tmp w of None \<Rightarrow> None | Some w \<Rightarrow> Some (hw, False, w))"

fun clearsign_loop ::
  "byte list list \<Rightarrow> byte list \<times> bool \<times> pipe \<Rightarrow> (byte list \<times> bool \<times> pipe) option" where
  "clearsign_loop [] st = Some st"
| "clearsign_loop (line # lines) st =
     (case clearsign_line line st of None \<Rightarrow> None | Some st \<Rightarrow> clearsign_loop lines st)"

text \<open>
  \<^verbatim>\<open>func (k *SignKey) Clearsign(src io.Reader) io.ReadCloser\<close>. The goroutine is run to its
  end against a reader that accepts \<open>credit\<close> writes. The input is what the
  \<^verbatim>\<open>bufio.Scanner\<close> delivers: the lines (without their line ends) and the error of
  \<^verbatim>\<open>s.Err()\<close>. The result is the bytes that went through the pipe and the error the pipe
  was closed with, and the key and the store as the goroutine leaves them (\<open>None\<close> if it
  panics).
\<close>

definition Clearsign ::
  "env \<Rightarrow> 64 word \<Rightarrow> nat \<Rightarrow> byte list list \<Rightarrow> error option \<Rightarrow> SignKey \<Rightarrow> heap
     \<Rightarrow> (byte list \<times> error option \<times> SignKey \<times> heap) option" where
  "Clearsign e now credit lines scan_err k h =
     (let open' = map (of_nat \<circ> of_char) ''-----BEGIN PGP SIGNED MESSAGE-----'' @ [0x0a]
                  @ map (of_nat \<circ> of_char) ''Hash: SHA256'' @ [0x0a, 0x0a]
      in case pipe_write open' ([], credit) of
           None \<Rightarrow> Some ([], None, k, h)
         | Some w \<Rightarrow>
             (case clearsign_loop lines ([], True, w) of
                None \<Rightarrow> Some (fst w, None, k, h)
              | Some (hw, first, w) \<Rightarrow> do {
                  let w = (case scan_err of None \<Rightarrow> w | Some err \<Rightarrow> (fst w, 0));
                  (keyid, k, h) \<leftarrow> KeyID e k h;
                  (p, k, h) \<leftarrow> sign e \<lparr>hashed = hw, sigtype = 0x01, sigtime = now,
                                          subpackets = [fingerprint keyid]\<rparr> k h;
                  let sig = Armor e (bytes p h);
                  (case pipe_write sig w of
                     None \<Rightarrow> Some (fst w, scan_err, k, h)
                   | Some w \<Rightarrow> Some (fst w, None, k, h))
                }))"

section \<open>Loading a secret key packet\<close>

text \<open>
  \<^verbatim>\<open>type Packet\<close> (declared in another file) has the fields \<open>Tag\<close> and \<open>Body\<close> that \<^verbatim>\<open>Load\<close>
  reads. A slice expression \<^verbatim>\<open>body[lo:hi]\<close> is checked against the capacity of \<open>body\<close>, not
  its length, so the model also holds the bytes of the backing array behind the body
  (\<open>BodySpare\<close>; empty when the capacity is the length).
\<close>

record ParsedPacket =
  Tag :: int
  Body :: "byte list"
  BodySpare :: "byte list"

text \<open>\<^verbatim>\<open>body[i]\<close>, \<^verbatim>\<open>body[lo:hi]\<close> and \<^verbatim>\<open>body[lo:]\<close>; \<open>None\<close> is the panic.\<close>

definition index :: "byte list \<Rightarrow> nat \<Rightarrow> byte option" where
  "index body i = (if i < length body then Some (body ! i) else None)"

definition subslice :: "byte list \<Rightarrow> byte list \<Rightarrow> nat \<Rightarrow> nat \<Rightarrow> byte list option" where
  "subslice body spare lo hi =
     (if lo \<le> hi \<and> hi \<le> length body + length spare
      then Some (take (hi - lo) (drop lo (body @ spare))) else None)"

definition slice_tail :: "byte list \<Rightarrow> nat \<Rightarrow> byte list option" where
  "slice_tail body lo = (if lo \<le> length body then Some (drop lo body) else None)"

text \<open>\<^verbatim>\<open>binary.BigEndian.Uint32(b)\<close> panics on less than four bytes.\<close>

definition Uint32 :: "byte list \<Rightarrow> 32 word option" where
  "Uint32 b =
     (if length b < 4 then None
      else Some (push_bit 24 (ucast (b ! 0)) OR push_bit 16 (ucast (b ! 1))
                 OR push_bit 8 (ucast (b ! 2)) OR ucast (b ! 3)))"

text \<open>
  How the body of \<^verbatim>\<open>Load\<close> ends: in a panic, or with a \<^verbatim>\<open>return\<close> of an error or of
  \<^verbatim>\<open>nil\<close> (\<open>None\<close>). With it come the key as the body leaves it, and the packet body,
  which the decryption overwrites in place.
\<close>

datatype exit = Panicked | Returned "error option"

type_synonym load_result = "exit \<times> SignKey \<times> byte list"

text \<open>
  The branch \<^verbatim>\<open>body[51] == 0\<close> of \<^verbatim>\<open>Load\<close>: \<open>Inl\<close> is how the function ends there,
  \<open>Inr\<close> is the value of \<open>seckey\<close> to go on with.
\<close>

definition Load_unencrypted :: "env \<Rightarrow> byte list \<Rightarrow> exit + byte list option" where
  "Load_unencrypted e body =
     (case slice_tail body 52 of
        None \<Rightarrow> Inl Panicked
      | Some rest \<Rightarrow>
          (case mpiDecode e rest 32 of
             MpiPanic \<Rightarrow> Inl Panicked
           | MpiReturn seckey tail \<Rightarrow>
               if length tail \<noteq> 2 then Inl (Returned (Some InvalidPacketErr)) else Inr seckey))"

text \<open>
  The branch \<^verbatim>\<open>body[51] == 254\<close>. It returns the packet body too, whose bytes from
  position 80 on \<^verbatim>\<open>XORKeyStream(data, data)\<close> replaces by the decrypted ones.
\<close>

definition Load_encrypted ::
  "env \<Rightarrow> byte list \<Rightarrow> byte list \<Rightarrow> byte list option \<Rightarrow> (exit + byte list option) \<times> byte list" where
  "Load_encrypted e body spare passphrase =
     (case passphrase of
        None \<Rightarrow> (Inl (Returned (Some DecryptKeyErr)), body)
      | Some pw \<Rightarrow>
          (case index body 52 of None \<Rightarrow> (Inl Panicked, body) | Some b52 \<Rightarrow>
           if b52 \<noteq> 9 then (Inl (Returned (Some UnsupportedPacketErr)), body) else
          (case index body 53 of None \<Rightarrow> (Inl Panicked, body) | Some b53 \<Rightarrow>
           if b53 \<noteq> 3 then (Inl (Returned (Some UnsupportedPacketErr)), body) else
          (case index body 54 of None \<Rightarrow> (Inl Panicked, body) | Some b54 \<Rightarrow>
           if b54 \<noteq> 8 then (Inl (Returned (Some UnsupportedPacketErr)), body) else
          (case subslice body spare 55 63 of None \<Rightarrow> (Inl Panicked, body) | Some salt \<Rightarrow>
          (case index body 63 of None \<Rightarrow> (Inl Panicked, body) | Some b63 \<Rightarrow>
          (case subslice body spare 64 80 of None \<Rightarrow> (Inl Panicked, body) | Some iv \<Rightarrow>
          (case slice_tail body 80 of None \<Rightarrow> (Inl Panicked, body) | Some data \<Rightarrow>
          (case s2k (sha256 e) pw salt (decodeS2K b63) of None \<Rightarrow> (Inl Panicked, body) | Some key \<Rightarrow>
          (case aes_cfb (cfb_decrypt e) key iv data of None \<Rightarrow> (Inl Panicked, body) | Some data \<Rightarrow>
           let body = take 80 body @ data
           in (case mpiDecode e data 32 of
                 MpiPanic \<Rightarrow> (Inl Panicked, body)
               | MpiReturn seckey check \<Rightarrow>
                   (case seckey of
                      None \<Rightarrow> (Inl (Returned (Some DecryptKeyErr)), body)
                    | Some sk \<Rightarrow>
                        if sha1 e (mpi e sk) \<noteq> check
                        then (Inl (Returned (Some DecryptKeyErr)), body)
                        else (Inr seckey, body)))))))))))))"

text \<open>
  The end of \<^verbatim>\<open>Load\<close>: \<^verbatim>\<open>k.Seed(seckey)\<close>, which panics unless \<open>seckey\<close> has 32 bytes
  (\<^verbatim>\<open>nil\<close> has none), and the comparison of the public key with the one in the packet.
\<close>

definition Load_finish ::
  "env \<Rightarrow> byte list option \<Rightarrow> byte list \<Rightarrow> SignKey \<Rightarrow> exit \<times> SignKey" where
  "Load_finish e seckey pubkey k =
     (case Seed e (case seckey of None \<Rightarrow> [] | Some sk \<Rightarrow> sk) k of
        None \<Rightarrow> (Panicked, k)
      | Some k \<Rightarrow>
          (case Pubkey k of
             None \<Rightarrow> (Panicked, k)
           | Some pub \<Rightarrow>
               if pub \<noteq> pubkey then (Returned (Some InvalidPacketErr), k)
               else (Returned None, k)))"

text \<open>The body of \<^verbatim>\<open>func (k *SignKey) Load(packet Packet, passphrase []byte) (err error)\<close>.\<close>

definition Load_body :: "env \<Rightarrow> ParsedPacket \<Rightarrow> byte list option \<Rightarrow> SignKey \<Rightarrow> load_result" where
  "Load_body e pkt passphrase k =
     (let body = Body pkt; spare = BodySpare pkt in
      if Tag pkt = 6 then (Returned (Some UnsupportedPacketErr), k, body)
      else if Tag pkt \<noteq> 5 then (Returned (Some InvalidPacketErr), k, body)
      else
        (case index body 0 of None \<Rightarrow> (Panicked, k, body) | Some b0 \<Rightarrow>
         if b0 \<noteq> 0x04 then (Returned (Some UnsupportedPacketErr), k, body) else
        (case subslice body spare 5 19 of None \<Rightarrow> (Panicked, k, body) | Some static \<Rightarrow>
         if static \<noteq> [22, 9, 0x2b, 0x06, 0x01, 0x04, 0x01, 0xda, 0x47, 0x0f, 0x01, 0x01, 0x07, 0x40]
         then (Returned (Some UnsupportedPacketErr), k, body) else
        (case subslice body spare 19 51 of None \<Rightarrow> (Panicked, k, body) | Some pubkey \<Rightarrow>
        (case slice_tail body 1 of None \<Rightarrow> (Panicked, k, body) | Some b1 \<Rightarrow>
        (case Uint32 b1 of None \<Rightarrow> (Panicked, k, body) | Some c \<Rightarrow>
         let k = SetCreated (ucast c) k in
        (case index body 51 of None \<Rightarrow> (Panicked, k, body) | Some b51 \<Rightarrow>
         if b51 = 0 then
           (case Load_unencrypted e body of
              Inl ex \<Rightarrow> (ex, k, body)
            | Inr seckey \<Rightarrow> (case Load_finish e seckey pubkey k of (ex, k) \<Rightarrow> (ex, k, body)))
         else if b51 = 254 then
           (case Load_encrypted e body spare passphrase of
              (Inl ex, body) \<Rightarrow> (ex, k, body)
            | (Inr seckey, body) \<Rightarrow>
                (case Load_finish e seckey pubkey k of (ex, k) \<Rightarrow> (ex, k, body)))
         else (case Load_finish e None pubkey k of (ex, k) \<Rightarrow> (ex, k, body)))))))))"

text \<open>
  \<^verbatim>\<open>Load\<close> with its deferred function: \<^verbatim>\<open>if recover() != nil { err = InvalidPacketErr }\<close>.
\<close>

definition Load ::
  "env \<Rightarrow> ParsedPacket \<Rightarrow> byte list option \<Rightarrow> SignKey \<Rightarrow> error option \<times> SignKey \<times> byte list" where
  "Load e pkt passphrase k =
     (case Load_body e pkt passphrase k of
        (Panicked, k, body) \<Rightarrow> (Some InvalidPacketErr, k, body)
      | (Returned err, k, body) \<Rightarrow> (err, k, body))"

section \<open>What the theorems assume of the environment, and of the packet cache\<close>

text \<open>
  The output lengths of the library functions, and two facts about the package's helpers:
  \<^verbatim>\<open>marshal32be\<close> returns four bytes, and \<^verbatim>\<open>mpi\<close> adds at most a two-byte prefix to a
  32-byte value.
\<close>

definition env_ok :: "env \<Rightarrow> bool" where
  "env_ok e \<longleftrightarrow>
     (\<forall>x. length (sha1 e x) = 20) \<and> (\<forall>x. length (sha256 e x) = 32)
     \<and> (\<forall>s. length (ed25519_public e s) = 32)
     \<and> (\<forall>key msg. length (ed25519_sign e key msg) = 64)
     \<and> (\<forall>w. length (marshal32be e w) = 4)
     \<and> (\<forall>x. length x = 32 \<longrightarrow> length (mpi e x) \<le> 34)"

text \<open>
  The body of the public-key packet of a key created at \<open>c\<close> with the public key \<open>pub\<close>:
  version, creation time, algorithm, length of the object identifier, the object
  identifier, the bit length 263, the prefix \<open>0x40\<close> and the public key.
\<close>

definition pubbody :: "64 word \<Rightarrow> byte list \<Rightarrow> byte list" where
  "pubbody c pub = 0x04 # be32 (ucast c) @ 22 # 9 # oid @ be16 263 @ 0x40 # pub"

text \<open>
  What the functions of the package keep true of \<open>k.packet\<close>: it is \<^verbatim>\<open>nil\<close>, or a slice of
  at least 53 bytes of a 90-byte array whose bytes 2 to 52 are the public-key packet body
  of the key.
\<close>

definition cache_ok :: "SignKey \<Rightarrow> heap \<Rightarrow> bool" where
  "cache_ok k h =
     (case packet k of
        None \<Rightarrow> True
      | Some p \<Rightarrow> arr p < length h \<and> length (h ! arr p) = 90
                  \<and> 53 \<le> len p \<and> len p \<le> 90
                  \<and> take 51 (drop 2 (h ! arr p)) = pubbody (created k) (drop 32 (Key k)))"

section \<open>What a signature consists of\<close>

text \<open>The bytes that the loop of \<open>sign\<close> appends for one subpacket.\<close>

definition ser :: "subpacket \<Rightarrow> byte list" where
  "ser sp = of_nat (length (Data sp) + 1) # Type sp # Data sp"

text \<open>
  The 90-byte array that \<open>Packet\<close> fills for a key: header byte, length, public-key body,
  protection mode 0, the secret key as an MPI, its checksum, and zeros up to the capacity.
\<close>

definition packet_array :: "env \<Rightarrow> SignKey \<Rightarrow> byte list" where
  "packet_array e k =
     0xc5 # of_nat (54 + length (mpi e (take 32 (Key k))))
     # pubbody (created k) (drop 32 (Key k))
     @ 0 # mpi e (take 32 (Key k)) @ be16 (checksum e (mpi e (take 32 (Key k))))
     @ replicate (34 - length (mpi e (take 32 (Key k)))) 0"

text \<open>
  The hashed-subpacket area of the signature that \<open>sign\<close> makes for the input \<open>inp\<close> with
  the key \<open>k\<close>: the creation-time subpacket, the issuer subpacket with the bytes 12 to 19
  of the Key ID, then the subpackets of the input.
\<close>

definition hashed_area :: "env \<Rightarrow> sigInput \<Rightarrow> SignKey \<Rightarrow> byte list" where
  "hashed_area e inp k =
     concat (map ser
       ([\<lparr>Type = 2, Data = marshal32be e (ucast (sigtime inp))\<rparr>,
         \<lparr>Type = 16, Data = take 8 (drop 12
            (sha1 e ([0x99, 0, 51] @ pubbody (created k) (drop 32 (Key k)))))\<rparr>]
        @ subpackets inp))"

text \<open>A slice that points into the store and lies within its array.\<close>

definition wf_slice :: "slice \<Rightarrow> heap \<Rightarrow> bool" where
  "wf_slice p h \<longleftrightarrow> arr p < length h \<and> len p \<le> length (h ! arr p)"

text \<open>
  All the bytes that go into the digest of a signature: what the caller has written, the
  bytes 2 to \<open>hashedLen + 7\<close> of the packet (version, signature type, algorithms, length
  of the hashed area, hashed area) and the six bytes of the final trailer.
\<close>

definition signature_digest_input :: "env \<Rightarrow> sigInput \<Rightarrow> SignKey \<Rightarrow> byte list" where
  "signature_digest_input e inp k =
     hashed inp @ [4, sigtype inp, 22, 8] @ be16 (of_nat (length (hashed_area e inp k)))
     @ hashed_area e inp k @ [4, 0xff, 0, 0, 0, of_nat (length (hashed_area e inp k) + 6)]"

text \<open>The bytes of the signature packet, as lemma \<open>sign_result\<close> proves \<open>sign\<close> returns them.\<close>

definition signature_packet :: "env \<Rightarrow> sigInput \<Rightarrow> SignKey \<Rightarrow> byte list" where
  "signature_packet e inp k =
     (let area = hashed_area e inp k;
          sigsum = sha256 e (signature_digest_input e inp k);
          sig = ed25519_sign e (Key k) sigsum;
          body = [4, sigtype inp, 22, 8] @ be16 (of_nat (length area)) @ area @ [0, 0]
                 @ take 2 sigsum @ mpi e (take 32 sig) @ mpi e (drop 32 sig)
      in [0xc2, of_nat (length body + 2) - 2] @ body)"

text \<open>
  Reading a signature packet: the hashed-subpacket area starts at byte 8 and has the
  length that the bytes 6 and 7 give.
\<close>

definition hashed_subpackets :: "byte list \<Rightarrow> byte list" where
  "hashed_subpackets pkt = take (256 * unat (pkt ! 6) + unat (pkt ! 7)) (drop 8 pkt)"

text \<open>The bytes of the packet that a function returns (empty if it panics or fails).\<close>

definition result_bytes :: "(slice \<times> SignKey \<times> heap) option \<Rightarrow> byte list" where
  "result_bytes r = (case r of None \<Rightarrow> [] | Some (p, k, h) \<Rightarrow> bytes p h)"

definition Sign_bytes :: "((error + slice) \<times> SignKey \<times> heap) option \<Rightarrow> byte list" where
  "Sign_bytes r = (case r of Some (Inr p, k, h) \<Rightarrow> bytes p h | _ \<Rightarrow> [])"

text \<open>The bytes that \<open>sign_prepare\<close> has written to the hash.\<close>

definition prepare_written :: "(slice \<times> byte list \<times> SignKey \<times> heap) option \<Rightarrow> byte list" where
  "prepare_written r = (case r of None \<Rightarrow> [] | Some (p, written, k, h) \<Rightarrow> written)"

text \<open>
  The bytes 5 to 18 of a secret-key packet body that \<open>Load\<close> accepts (algorithm, object
  identifier with its length, bit length 263 and the prefix \<open>0x40\<close>), and a packet that
  passes the checks before the protection-mode byte at position 51.
\<close>

definition static_bytes :: "byte list" where
  "static_bytes = [22, 9, 0x2b, 0x06, 0x01, 0x04, 0x01, 0xda, 0x47, 0x0f, 0x01, 0x01, 0x07, 0x40]"

definition header_ok :: "ParsedPacket \<Rightarrow> bool" where
  "header_ok pkt \<longleftrightarrow>
     Tag pkt = 5 \<and> 52 \<le> length (Body pkt) \<and> Body pkt ! 0 = 0x04
     \<and> take 14 (drop 5 (Body pkt)) = static_bytes"

section \<open>Instances for running the model\<close>

text \<open>
  To run the model on concrete inputs, the parameters are instantiated: the helpers of the
  package follow the specification's description of them, the cryptographic functions are
  stand-ins of the right output lengths. No theorem about all environments depends on
  these instances.
\<close>

fun bit_length :: "nat \<Rightarrow> nat" where
  "bit_length n = (if n = 0 then 0 else Suc (bit_length (n div 2)))"

declare bit_length.simps [simp del]

text \<open>
  Modelled from the spec: \<^verbatim>\<open>mpi\<close>, whose definition is not in the source at hand. "A 2-byte
  bit-length prefix (the bit length of the value with leading zero bits stripped) followed
  by the minimal big-endian byte sequence."
\<close>

definition mpi_spec :: "byte list \<Rightarrow> byte list" where
  "mpi_spec data =
     (let ds = dropWhile (\<lambda>b. b = 0) data;
          bits = (case ds of [] \<Rightarrow> 0 | d # _ \<Rightarrow> 8 * (length ds - 1) + bit_length (unat d))
      in be16 (of_nat bits) @ ds)"

text \<open>
  Modelled from the spec: \<^verbatim>\<open>mpiDecode\<close>, whose definition is not in the source at hand.
  "Decoding consumes exactly ceil(bitlen/8) bytes after the prefix and returns the
  remaining tail; decoding of a value whose declared length disagrees with available bytes
  fails." The failure is the \<^verbatim>\<open>nil\<close> result that \<^verbatim>\<open>Load\<close> tests for, and the second argument
  is taken to be the number of bytes the value is padded to on the left, as the use of the
  result as a 32-byte seed suggests.
\<close>

definition mpiDecode_spec :: "byte list \<Rightarrow> nat \<Rightarrow> mpi_result" where
  "mpiDecode_spec buf n =
     (if length buf < 2 then MpiReturn None []
      else let bits = 256 * unat (buf ! 0) + unat (buf ! 1);
               m = (bits + 7) div 8
           in if length buf < 2 + m \<or> n < m then MpiReturn None []
              else MpiReturn (Some (replicate (n - m) 0 @ take m (drop 2 buf))) (drop (2 + m) buf))"

text \<open>
  Modelled from the spec: \<^verbatim>\<open>checksum\<close>, whose definition is not in the source at hand. "A
  16-bit unsigned checksum over an arbitrary byte sequence (sum of bytes mod 2^16)."
\<close>

definition checksum_spec :: "byte list \<Rightarrow> 16 word" where
  "checksum_spec xs = sum_list (map ucast xs)"

definition xor_stream :: "byte list \<Rightarrow> byte list \<Rightarrow> byte list \<Rightarrow> byte list" where
  "xor_stream key iv data = map (\<lambda>b. b XOR sum_list (key @ iv)) data"

definition env0 :: env where
  "env0 = \<lparr>sha1 = sum_digest 20, sha256 = sum_digest 32,
           ed25519_public = (\<lambda>seed. take 32 (map (\<lambda>b. b + 1) seed @ replicate 32 0)),
           ed25519_sign = (\<lambda>key msg. sum_digest 32 (key @ msg) @ sum_digest 32 msg),
           cfb_encrypt = xor_stream, cfb_decrypt = xor_stream,
           growcap = (\<lambda>old n. 2 * old + n),
           mpi = mpi_spec, mpiDecode = mpiDecode_spec, checksum = checksum_spec,
           marshal32be = be32, Armor = (\<lambda>xs. xs), ParsePacket = drop 2\<rparr>"

text \<open>A key made from the seed \<open>1, 2, \<dots>, 32\<close>, created at second \<open>0x5D000000\<close>.\<close>

definition seed0 :: "byte list" where
  "seed0 = map of_nat [1 ..< 33]"

definition key0 :: SignKey where
  "key0 = \<lparr>Key = seed0 @ ed25519_public env0 seed0, created = 0x5D000000, expires = 0,
           packet = None\<rparr>"

text \<open>A self-certification input and a three-byte document, to run the model on.\<close>

definition inp0 :: sigInput where
  "inp0 = \<lparr>hashed = [1, 2, 3], sigtype = 0x13, sigtime = 7,
           subpackets = [\<lparr>Type = 27, Data = [0x03]\<rparr>, \<lparr>Type = 30, Data = [0x01]\<rparr>]\<rparr>"

definition src0 :: reader where
  "src0 = \<lparr>content = [1, 2, 3], failure = None\<rparr>"

text \<open>The zero value of \<open>SignKey\<close>.\<close>

definition key_new :: SignKey where
  "key_new = \<lparr>Key = [], created = 0, expires = 0, packet = None\<rparr>"

text \<open>
  The body of the cleartext secret-key packet of \<open>key0\<close>, and the same body cut off after
  30 bytes.
\<close>

definition body0 :: "byte list" where
  "body0 = pubbody (created key0) (drop 32 (Key key0)) @ [0] @ mpi_spec seed0
           @ be16 (checksum_spec (mpi_spec seed0))"

definition pkt0 :: ParsedPacket where
  "pkt0 = \<lparr>Tag = 5, Body = body0, BodySpare = []\<rparr>"


text \<open>
  An environment whose cipher leaves the data as it is, and a protected packet body for
  it whose integrity digest (20 zero bytes) is not the digest of the secret key.
\<close>

definition env1 :: env where
  "env1 = env0\<lparr>cfb_encrypt := (\<lambda>key iv data. data), cfb_decrypt := (\<lambda>key iv data. data)\<rparr>"

definition body1 :: "byte list" where
  "body1 = pubbody (created key0) (drop 32 (Key key0)) @ [254, 9, 3, 8]
           @ [1, 2, 3, 4, 5, 6, 7, 8] @ [0] @ replicate 16 7
           @ mpi_spec seed0 @ replicate 20 0"

definition pkt1 :: ParsedPacket where
  "pkt1 = \<lparr>Tag = 5, Body = body1, BodySpare = []\<rparr>"

text \<open>The bytes of an ASCII string.\<close>

definition ascii :: "string \<Rightarrow> byte list" where
  "ascii = map (of_nat \<circ> of_char)"

section \<open>A verifier for signature packets\<close>

text \<open>
  Modelled from the spec: the "standards-conformant verifier for the declared algorithm"
  that the specification's reproducibility property speaks of. The package has no
  verifier (verifying signatures is a non-goal of it), so the check is written out here
  from the packet layout of the specification (section 4.5) and the OpenPGP rules for a
  version 4 signature over a binary document, for EdDSA with SHA-256.
\<close>

text \<open>
  A subpacket area is a sequence of subpackets, each a length octet (of the type octet and
  the data, here always below 192, the one-octet form), the type and the data.
\<close>

function subpackets_of :: "byte list \<Rightarrow> (byte \<times> byte list) list option" where
  "subpackets_of buf =
     (case buf of
        [] \<Rightarrow> Some []
      | l # rest \<Rightarrow>
          if l = 0 \<or> 192 \<le> unat l \<or> length rest < unat l then None
          else map_option (Cons (hd rest, take (unat l - 1) (tl rest)))
                 (subpackets_of (drop (unat l) rest)))"
  by pat_completeness auto
termination
  by (relation "measure length") auto

declare subpackets_of.simps [simp del]

text \<open>
  An MPI is a two-octet bit count and the value in \<open>(bits + 7) div 8\<close> octets, most significant
  first; the bit count is exact (the first octet of the value has its highest set bit where
  the count says). The value is padded on the left to \<open>n\<close> octets.
\<close>

definition read_mpi :: "nat \<Rightarrow> byte list \<Rightarrow> (byte list \<times> byte list) option" where
  "read_mpi n buf =
     (if length buf < 2 then None
      else let bits = 256 * unat (buf ! 0) + unat (buf ! 1);
               m = (bits + 7) div 8
           in if length buf < 2 + m \<or> n < m then None
              else if bits \<noteq> (if m = 0 then 0 else 8 * (m - 1) + bit_length (unat (buf ! 2)))
                   then None
              else Some (replicate (n - m) 0 @ take m (drop 2 buf), drop (2 + m) buf))"

text \<open>
  \<open>verifier_accepts e vfy pub doc pkt\<close>: the packet \<open>pkt\<close> is a valid signature of the document
  \<open>doc\<close> under the public key \<open>pub\<close>. The verifier checks
  \<^item> the header: a new-format packet of tag 2 whose one-octet length is the length of the body;
  \<^item> version 4, signature class \<open>0x00\<close>, public-key algorithm 22 and hash algorithm 8;
  \<^item> that the hashed and the unhashed subpacket area lie within the body and are well
    formed, and that the hashed area has a signature creation time (type 2, four octets);
  \<^item> the digest: SHA-256 over the document, the body from the version octet to the end of
    the hashed area, and the trailer \<open>0x04, 0xff\<close> and the length of that part of the body as
    four octets; its first two octets are those stored behind the unhashed area;
  \<^item> the signature: two MPIs and nothing behind them, whose values, as 32 octets each,
    are a signature of the digest that \<open>vfy\<close> (\<^verbatim>\<open>ed25519.Verify(publicKey, message, sig)\<close>)
    accepts.
\<close>

definition verifier_accepts ::
  "env \<Rightarrow> (byte list \<Rightarrow> byte list \<Rightarrow> byte list \<Rightarrow> bool) \<Rightarrow> byte list \<Rightarrow> byte list \<Rightarrow> byte list \<Rightarrow> bool" where
  "verifier_accepts e vfy pub doc pkt =
     (2 \<le> length pkt \<and> pkt ! 0 = 0xc2 \<and> unat (pkt ! 1) < 192
      \<and> length pkt = 2 + unat (pkt ! 1)
      \<and> (let body = drop 2 pkt in
          6 \<le> length body \<and> take 4 body = [4, 0x00, 22, 8]
        \<and> (let n = 256 * unat (body ! 4) + unat (body ! 5) in
            8 + n \<le> length body
          \<and> (let m = 256 * unat (body ! (6 + n)) + unat (body ! (7 + n)) in
              10 + n + m \<le> length body
            \<and> (case subpackets_of (take n (drop 6 body)) of
                  None \<Rightarrow> False
                | Some sps \<Rightarrow> list_ex (\<lambda>(t, d). t = 2 \<and> length d = 4) sps)
            \<and> subpackets_of (take m (drop (8 + n) body)) \<noteq> None
            \<and> (let digest = sha256 e (doc @ take (6 + n) body @ [4, 0xff] @ be32 (of_nat (6 + n)))
                in take 2 (drop (8 + n + m) body) = take 2 digest
                 \<and> (case read_mpi 32 (drop (10 + n + m) body) of
                       None \<Rightarrow> False
                     | Some (r, rest) \<Rightarrow>
                         (case read_mpi 32 rest of
                            None \<Rightarrow> False
                          | Some (s, rest') \<Rightarrow> rest' = [] \<and> vfy pub digest (r @ s))))))))"

text \<open>
  What the verification theorem assumes: Ed25519 accepts the signatures it makes, under
  the public key that belongs to the seed; and \<^verbatim>\<open>mpi\<close> (not in the source at hand) encodes
  a 32-byte value as the MPI that the verifier reads back.
\<close>

definition ed25519_correct :: "env \<Rightarrow> (byte list \<Rightarrow> byte list \<Rightarrow> byte list \<Rightarrow> bool) \<Rightarrow> bool" where
  "ed25519_correct e vfy \<longleftrightarrow>
     (\<forall>seed msg. length seed = 32 \<longrightarrow>
        vfy (ed25519_public e seed) msg (ed25519_sign e (seed @ ed25519_public e seed) msg))"

definition mpi_standard :: "env \<Rightarrow> bool" where
  "mpi_standard e \<longleftrightarrow> (\<forall>x rest. length x = 32 \<longrightarrow> read_mpi 32 (mpi e x @ rest) = Some (x, rest))"

text \<open>
  The verification that goes with the stand-in signature function of \<open>env0\<close> (which, unlike
  Ed25519, lets the seed be computed from the public key).
\<close>

definition vfy0 :: "byte list \<Rightarrow> byte list \<Rightarrow> byte list \<Rightarrow> bool" where
  "vfy0 pub msg sig \<longleftrightarrow> sig = ed25519_sign env0 (map (\<lambda>b. b - 1) pub @ pub) msg"

section \<open>Properties of the string-to-key derivation\<close>

lemma copy_at_length [simp]: "length (copy_at dst off src) = length dst"
  by (simp add: copy_at_def Let_def min_def)

lemma s2k_full:
  assumes "length salt = 8"
  shows "copy_at (copy_at (replicate (8 + length passphrase) 0) 0 salt) 8 passphrase
           = salt @ passphrase"
  using assms by (simp add: copy_at_def Let_def min_def)

lemma s2k_loop_replicate:
  "i \<le> n \<Longrightarrow> s2k_loop i n full h = h @ concat (replicate (nat (n - i)) full)"
proof (induction i n full h rule: s2k_loop.induct)
  case (1 i iterations full h)
  show ?case
  proof (cases "i < iterations")
    case True
    then have "nat (iterations - i) = Suc (nat (iterations - (i + 1)))"
      by simp
    with True "1.IH" show ?thesis
      by (subst s2k_loop.simps) simp
  next
    case False
    with "1.prems" show ?thesis
      by (subst s2k_loop.simps) simp
  qed
qed

lemma decodeS2K_eq:
  "decodeS2K c = (16 + uint (c AND 15)) * 2 ^ (unat (drop_bit 4 c) + 6)"
  by (simp add: decodeS2K_def push_bit_eq_mult)

lemma decodeS2K_bounds: "1024 \<le> decodeS2K c \<and> decodeS2K c \<le> 31 * 2 ^ 21"
proof -
  have lo: "uint (c AND 15) \<le> 15"
    using word_and_le1 [of c 15] by (simp add: word_le_def)
  have "unat c < 256"
    using unsigned_less [of c] by simp
  then have "unat c div 16 \<le> 15"
    by simp
  then have hi: "unat (drop_bit 4 c) \<le> 15"
    by (simp add: unat_drop_bit_eq drop_bit_eq_div unat_div)
  have p1: "(2::int) ^ 6 \<le> 2 ^ (unat (drop_bit 4 c) + 6)"
    by (rule power_increasing) simp_all
  have p2: "(2::int) ^ (unat (drop_bit 4 c) + 6) \<le> 2 ^ 21"
    using hi by (intro power_increasing) simp_all
  have "(16::int) * 2 ^ 6 \<le> (16 + uint (c AND 15)) * 2 ^ (unat (drop_bit 4 c) + 6)"
    using p1 by (intro mult_mono) simp_all
  moreover have "(16 + uint (c AND 15)) * 2 ^ (unat (drop_bit 4 c) + 6) \<le> (31::int) * 2 ^ 21"
    using lo p2 by (intro mult_mono) simp_all
  ultimately show ?thesis
    by (simp add: decodeS2K_eq)
qed

lemma s2k_nonneg:
  assumes "length salt = 8" and "0 \<le> count"
  shows "s2k H passphrase salt count =
           Some (H (concat (replicate (nat count div length (salt @ passphrase)) (salt @ passphrase))
                         @ take (nat count mod length (salt @ passphrase)) (salt @ passphrase)))"
proof -
  define full where "full = salt @ passphrase"
  define n where "n = 8 + int (length passphrase)"
  have len: "int (length full) = n" "length full = 8 + length passphrase"
    using assms(1) by (simp_all add: n_def full_def)
  have n_pos: "0 < n"
    by (simp add: n_def)
  have it: "go_div count n = count div n"
    using assms(2) n_pos by (simp add: go_div_def sgn_if)
  have tail: "count - (count div n) * n = count mod n"
    by (simp add: minus_div_mult_eq_mod)
  have tail_bounds: "\<not> count mod n < 0" "\<not> n < count mod n"
    using n_pos pos_mod_bound [of n count] pos_mod_sign [of n count] by linarith+
  have q: "nat (count div n) = nat count div length full"
    using assms(2) by (simp add: len(1) [symmetric] nat_div_distrib)
  have r: "nat (count mod n) = nat count mod length full"
    using assms(2) by (simp add: len(1) [symmetric] nat_mod_distrib)
  have loop: "s2k_loop 0 (count div n) full [] = concat (replicate (nat (count div n)) full)"
    using assms(2) n_pos by (simp add: s2k_loop_replicate pos_imp_zdiv_nonneg_iff)
  have "s2k H passphrase salt count =
          (let iterations = go_div count (int (length full));
               h = s2k_loop 0 iterations full [];
               tail = count - iterations * int (length full)
           in if tail < 0 \<or> int (length full) < tail then None
              else Some (H (h @ take (nat tail) full)))"
    unfolding s2k_def Let_def s2k_full [OF assms(1)] full_def ..
  also have "\<dots> = Some (H (s2k_loop 0 (count div n) full [] @ take (nat (count mod n)) full))"
    unfolding Let_def len(1) it tail using tail_bounds by simp
  finally have "s2k H passphrase salt count =
      Some (H (concat (replicate (nat count div length full) full)
                    @ take (nat count mod length full) full))"
    unfolding loop q r .
  then show ?thesis
    unfolding full_def .
qed

text \<open>
  C2. For every passphrase, every 8-byte salt and every encoded-count byte \<open>c\<close>, the key
  returned by \<open>s2k\<close> is the SHA-256 digest of exactly \<open>count\<close> bytes of
  \<open>salt || passphrase\<close> repeated, where
  \<open>count = (16 + (c AND 15)) << ((c >> 4) + 6)\<close> is what \<open>decodeS2K\<close> returns: the digest
  input is \<open>count div len\<close> whole copies of \<open>salt || passphrase\<close> followed by its first
  \<open>count mod len\<close> bytes, that is, the first \<open>count\<close> bytes of the repeated sequence.
\<close>

theorem s2k_digest_of_repeated_salt_passphrase:
  assumes "length salt = 8"
  shows "let full = salt @ passphrase;
             count = nat (decodeS2K c);
             input = concat (replicate (count div length full) full)
                     @ take (count mod length full) full
         in decodeS2K c = (16 + uint (c AND 15)) * 2 ^ (unat (drop_bit 4 c) + 6)
          \<and> s2k H passphrase salt (decodeS2K c) = Some (H input)
          \<and> length input = count
          \<and> input = take count (concat (replicate (Suc (count div length full)) full))"
proof -
  define full where "full = salt @ passphrase"
  define count where "count = nat (decodeS2K c)"
  define q where "q = count div length full"
  define r where "r = count mod length full"
  have len_pos: "0 < length full"
    using assms by (simp add: full_def)
  have nonneg: "0 \<le> decodeS2K c"
    using decodeS2K_bounds [of c] by simp
  have len_q: "length (concat (replicate q full)) = q * length full"
    by (induction q) simp_all
  have r_lt: "r < length full"
    using len_pos by (simp add: r_def)
  have count_eq: "q * length full + r = count"
    by (simp add: q_def r_def)
  have A: "decodeS2K c = (16 + uint (c AND 15)) * 2 ^ (unat (drop_bit 4 c) + 6)"
    by (simp add: decodeS2K_eq)
  have B: "s2k H passphrase salt (decodeS2K c)
             = Some (H (concat (replicate q full) @ take r full))"
    using s2k_nonneg [OF assms nonneg, of H passphrase]
    by (simp add: full_def count_def q_def r_def)
  have C: "length (concat (replicate q full) @ take r full) = count"
    using r_lt count_eq by (simp add: len_q min_def)
  have "concat (replicate (Suc q) full) = concat (replicate q full) @ full"
    by (induction q) simp_all
  then have "take count (concat (replicate (Suc q) full))
          = take (q * length full + r) (concat (replicate q full) @ full)"
    by (simp add: count_eq)
  also have "\<dots> = concat (replicate q full) @ take r full"
    by (simp add: len_q)
  finally have D: "concat (replicate q full) @ take r full
                     = take count (concat (replicate (Suc q) full))"
    by simp
  show ?thesis
    unfolding Let_def full_def [symmetric] count_def [symmetric] q_def [symmetric] r_def [symmetric]
    by (intro conjI A B C D)
qed

theorem s2k_digest_of_repeated_salt_passphrase_witness:
  "length [1, 2, 3, 4, 5, 6, 7, 8 :: byte] = 8
   \<and> decodeS2K 0 = 1024
   \<and> s2k (sum_digest 32) [112, 119] [1, 2, 3, 4, 5, 6, 7, 8] (decodeS2K 0)
       = Some (sum_digest 32 (concat (replicate 102 [1, 2, 3, 4, 5, 6, 7, 8, 112, 119])
                               @ [1, 2, 3, 4]))"
proof -
  have h: "length [1, 2, 3, 4, 5, 6, 7, 8 :: byte] = 8"
    by simp
  have d: "decodeS2K 0 = 1024"
    by (simp add: decodeS2K_def)
  show ?thesis
    using s2k_digest_of_repeated_salt_passphrase [OF h, where c = 0 and H = "sum_digest 32" and passphrase = "[112, 119]"] h
    by (simp add: Let_def d)
qed


section \<open>Properties of the store\<close>

lemma length_be16 [simp]: "length (be16 v) = 2"
  by (simp add: be16_def)

lemma length_be32 [simp]: "length (be32 v) = 4"
  by (simp add: be32_def)

lemma length_oid [simp]: "length oid = 9"
  by (simp add: oid_def)

lemma length_pubbody [simp]: "length (pubbody c pub) = 19 + length pub"
  by (simp add: pubbody_def)

lemma length_write_at [simp]:
  "i + length vs \<le> length xs \<Longrightarrow> length (write_at xs i vs) = length xs"
  by (simp add: write_at_def)

lemma write_at_replicate:
  "i + length vs \<le> n \<Longrightarrow>
     write_at (replicate n x) i vs = replicate i x @ vs @ replicate (n - (i + length vs)) x"
  by (simp add: write_at_def min_def)

lemma write_at_Cons:
  "0 < i \<Longrightarrow> write_at (x # xs) i vs = x # write_at xs (i - 1) vs"
  by (cases i) (simp_all add: write_at_def)

lemma write_at_append:
  "length A \<le> i \<Longrightarrow> write_at (A @ B) i vs = A @ write_at B (i - length A) vs"
  by (simp add: write_at_def)

lemma write_at_0: "write_at xs 0 vs = vs @ drop (length vs) xs"
  by (simp add: write_at_def)

lemma nth_write_at:
  "i + length vs \<le> length xs \<Longrightarrow> j < length xs \<Longrightarrow>
     write_at xs i vs ! j = (if j < i then xs ! j else if j < i + length vs then vs ! (j - i) else xs ! j)"
  by (auto simp: write_at_def nth_append min_def)

lemma take_drop_write_at:
  assumes "i + length vs \<le> length xs" and "lo + n \<le> i \<or> i + length vs \<le> lo"
  shows "take n (drop lo (write_at xs i vs)) = take n (drop lo xs)"
proof (rule nth_equalityI)
  show "length (take n (drop lo (write_at xs i vs))) = length (take n (drop lo xs))"
    using assms(1) by simp
next
  fix j
  assume "j < length (take n (drop lo (write_at xs i vs)))"
  then have j: "j < n" "lo + j < length xs"
    using assms(1) by auto
  then show "take n (drop lo (write_at xs i vs)) ! j = take n (drop lo xs) ! j"
    using assms by (auto simp: nth_write_at)
qed

lemma length_upd [simp]: "length (upd a f h) = length h"
  by (simp add: upd_def)

lemma upd_last [simp]: "upd (length h) f (h @ [c]) = h @ [f c]"
  by (simp add: upd_def)

section \<open>The packet of a key and its Key ID\<close>

lemma s2k_Some_length:
  assumes "\<forall>x. length (H x) = 32" and "length salt = 8"
  shows "\<exists>key. s2k H passphrase salt (decodeS2K c) = Some key \<and> length key = 32"
  using s2k_nonneg [OF assms(2), of "decodeS2K c" H passphrase] decodeS2K_bounds [of c] assms(1)
  by simp

text \<open>
  The array that \<open>Packet\<close> builds for a key without a cached packet: header byte, length,
  public-key body, protection mode 0, the secret key as an MPI and its checksum; the rest
  of the 90 bytes stays zero.
\<close>

lemma Packet_fresh:
  assumes "packet k = None" and "length (Key k) = 64" and "length (mpi e (take 32 (Key k))) \<le> 34"
  shows "Packet e k h =
    (let mpikey = mpi e (take 32 (Key k));
         p = \<lparr>arr = length h, len = 56 + length mpikey\<rparr>
     in Some (p, k\<lparr>packet := Some p\<rparr>,
          h @ [0xc5 # of_nat (54 + length mpikey) # pubbody (created k) (drop 32 (Key k))
               @ 0 # mpikey @ be16 (checksum e mpikey) @ replicate (34 - length mpikey) 0]))"
  using assms
  by (simp add: Packet_def make_slice_def SignKeyPubLen_def signKeySecLen_def store_def
     PutUint32_def PutUint16_def copy_from_def copy_range_def upd_def cap_def Pubkey_def Seckey_def
     append_slice_def reslice_def Let_def pubbody_def
     write_at_replicate write_at_Cons write_at_append write_at_0)

lemma Packet_cached: "packet k = Some p \<Longrightarrow> Packet e k h = Some (p, k, h)"
  by (simp add: Packet_def)

lemma KeyID_cached:
  assumes "packet k = Some p" and "cache_ok k h"
  shows "KeyID e k h = Some (sha1 e ([0x99, 0, 51] @ pubbody (created k) (drop 32 (Key k))), k, h)"
  using assms
  by (simp add: KeyID_def Packet_cached cache_ok_def slice_read_def cap_def SignKeyPubLen_def)

lemma KeyID_fresh:
  assumes "packet k = None" and "length (Key k) = 64" and "length (mpi e (take 32 (Key k))) \<le> 34"
  shows "\<exists>p c. KeyID e k h = Some (sha1 e ([0x99, 0, 51] @ pubbody (created k) (drop 32 (Key k))),
                                   k\<lparr>packet := Some p\<rparr>, h @ [c])
               \<and> cache_ok (k\<lparr>packet := Some p\<rparr>) (h @ [c])"
proof -
  define mpikey where "mpikey = mpi e (take 32 (Key k))"
  define p where "p = \<lparr>arr = length h, len = 56 + length mpikey\<rparr>"
  define c where "c = 0xc5 # of_nat (54 + length mpikey) # pubbody (created k) (drop 32 (Key k))
                        @ 0 # mpikey @ be16 (checksum e mpikey) @ replicate (34 - length mpikey) 0"
  have P: "Packet e k h = Some (p, k\<lparr>packet := Some p\<rparr>, h @ [c])"
    using Packet_fresh [OF assms, of h] by (simp add: Let_def mpikey_def p_def c_def)
  have len: "length c = 90"
    using assms(2,3) by (simp add: c_def mpikey_def)
  have body: "take 51 (drop 2 c) = pubbody (created k) (drop 32 (Key k))"
    using assms(2) by (simp add: c_def)
  have "KeyID e k h = Some (sha1 e ([0x99, 0, 51] @ pubbody (created k) (drop 32 (Key k))),
                            k\<lparr>packet := Some p\<rparr>, h @ [c])"
    by (simp add: KeyID_def P slice_read_def cap_def SignKeyPubLen_def p_def len body)
  moreover have "cache_ok (k\<lparr>packet := Some p\<rparr>) (h @ [c])"
    using assms(3) by (simp add: cache_ok_def p_def len body mpikey_def)
  ultimately show ?thesis
    by blast
qed

text \<open>
  Whatever the state of the cache, \<open>KeyID\<close> returns the SHA-1 digest of the framed
  public-key body, touches no array that was there before, and leaves the cache in order.
\<close>

lemma KeyID_result:
  assumes "env_ok e" and "length (Key k) = 64" and "cache_ok k h"
  shows "\<exists>k' h'. KeyID e k h = Some (sha1 e ([0x99, 0, 51] @ pubbody (created k) (drop 32 (Key k))), k', h')
           \<and> Key k' = Key k \<and> created k' = created k \<and> expires k' = expires k
           \<and> cache_ok k' h' \<and> packet k' \<noteq> None \<and> (h' = h \<or> (\<exists>c. h' = h @ [c]))"
proof (cases "packet k")
  case None
  have "length (mpi e (take 32 (Key k))) \<le> 34"
    using assms(1,2) by (simp add: env_ok_def)
  from KeyID_fresh [OF None assms(2) this, of h] show ?thesis
    by force
next
  case (Some p)
  from KeyID_cached [OF Some assms(3), of e] Some assms(3) show ?thesis
    by simp
qed

text \<open>
  C1. For every sign key (one that holds a 64-byte private key, in any state of its packet
  cache that the package's functions leave behind), \<open>KeyID\<close> is the SHA-1 digest of
  \<open>0x99, 0, 51\<close> followed by the 51 bytes of the public-key packet body: version, creation
  time, algorithm, length of the object identifier, object identifier, bit length, the
  prefix \<open>0x40\<close> and the 32-byte public key. After \<open>Seed\<close> with a 32-byte seed the Key ID
  is a function of the seed and the creation time alone, whatever the key and the store
  were before, and asking for it again returns the same bytes.
\<close>

theorem KeyID_sha1_of_framed_public_key_body:
  assumes "env_ok e" and "length (Key k) = 64" and "cache_ok k h"
  shows "(\<exists>k' h'. KeyID e k h = Some (sha1 e ([0x99, 0, 51] @ pubbody (created k) (drop 32 (Key k))), k', h')
            \<and> Key k' = Key k \<and> created k' = created k \<and> cache_ok k' h')
       \<and> pubbody (created k) (drop 32 (Key k))
           = [0x04] @ be32 (ucast (created k)) @ [22] @ [9]
             @ [0x2b, 0x06, 0x01, 0x04, 0x01, 0xda, 0x47, 0x0f, 0x01] @ [0x01, 0x07] @ [0x40]
             @ drop 32 (Key k)
       \<and> length (pubbody (created k) (drop 32 (Key k))) = 51
       \<and> length (drop 32 (Key k)) = 32
       \<and> (\<forall>seed k0 h0. length seed = 32 \<longrightarrow>
            (\<exists>k1 k2 h2 k3 h3.
               Seed e seed k0 = Some k1
             \<and> KeyID e k1 h0
                 = Some (sha1 e ([0x99, 0, 51] @ pubbody (created k0) (ed25519_public e seed)), k2, h2)
             \<and> KeyID e k2 h2
                 = Some (sha1 e ([0x99, 0, 51] @ pubbody (created k0) (ed25519_public e seed)), k3, h3)))"
proof -
  have A: "\<exists>k' h'. KeyID e k h = Some (sha1 e ([0x99, 0, 51] @ pubbody (created k) (drop 32 (Key k))), k', h')
            \<and> Key k' = Key k \<and> created k' = created k \<and> cache_ok k' h'"
    using KeyID_result [OF assms] by blast
  have B: "pubbody (created k) (drop 32 (Key k))
           = [0x04] @ be32 (ucast (created k)) @ [22] @ [9]
             @ [0x2b, 0x06, 0x01, 0x04, 0x01, 0xda, 0x47, 0x0f, 0x01] @ [0x01, 0x07] @ [0x40]
             @ drop 32 (Key k)"
    by (simp add: pubbody_def oid_def be16_def)
  have C: "length (pubbody (created k) (drop 32 (Key k))) = 51" "length (drop 32 (Key k)) = 32"
    using assms(2) by simp_all
  have D: "\<exists>k1 k2 h2 k3 h3.
               Seed e seed k0 = Some k1
             \<and> KeyID e k1 h0
                 = Some (sha1 e ([0x99, 0, 51] @ pubbody (created k0) (ed25519_public e seed)), k2, h2)
             \<and> KeyID e k2 h2
                 = Some (sha1 e ([0x99, 0, 51] @ pubbody (created k0) (ed25519_public e seed)), k3, h3)"
    if seed: "length seed = 32" for seed k0 h0
  proof -
    define k1 where "k1 = k0\<lparr>Key := seed @ ed25519_public e seed, packet := None\<rparr>"
    have S: "Seed e seed k0 = Some k1"
      using seed by (simp add: Seed_def k1_def)
    have len: "length (Key k1) = 64"
      using seed assms(1) by (simp add: k1_def env_ok_def)
    have pub: "drop 32 (Key k1) = ed25519_public e seed" "created k1 = created k0"
      using seed by (simp_all add: k1_def)
    have ok1: "cache_ok k1 h0"
      by (simp add: cache_ok_def k1_def)
    obtain k2 h2 where K1: "KeyID e k1 h0
        = Some (sha1 e ([0x99, 0, 51] @ pubbody (created k1) (drop 32 (Key k1))), k2, h2)"
      and k2: "Key k2 = Key k1" "created k2 = created k1" "cache_ok k2 h2"
      using KeyID_result [OF assms(1) len ok1] by blast
    obtain k3 h3 where K2: "KeyID e k2 h2
        = Some (sha1 e ([0x99, 0, 51] @ pubbody (created k2) (drop 32 (Key k2))), k3, h3)"
      using KeyID_result [OF assms(1) _ k2(3)] len k2(1) by force
    show ?thesis
      using S K1 K2 by (simp add: k2 pub)
  qed
  show ?thesis
    using A B C D by blast
qed

section \<open>The instances meet the assumptions\<close>

lemma length_mpi_spec: "length (mpi_spec x) \<le> 2 + length x"
  by (simp add: mpi_spec_def Let_def length_dropWhile_le)

lemma env0_ok: "env_ok env0"
proof -
  have "length (mpi_spec x) \<le> 34" if "length x = 32" for x
    using length_mpi_spec [of x] that by simp
  then show ?thesis
    by (auto simp: env_ok_def env0_def sum_digest_def min_def)
qed

lemma key0_facts: "length (Key key0) = 64" "packet key0 = None" "cache_ok key0 h"
  by (simp_all add: key0_def seed0_def env0_def cache_ok_def)

theorem KeyID_sha1_of_framed_public_key_body_witness:
  "env_ok env0 \<and> length (Key key0) = 64 \<and> cache_ok key0 []
   \<and> (\<exists>k' h'. KeyID env0 key0 []
         = Some (sha1 env0 ([0x99, 0, 51] @ pubbody (created key0) (drop 32 (Key key0))), k', h'))
   \<and> length (replicate 32 (7 :: byte)) = 32
   \<and> (\<exists>k1 k2 h2 k3 h3.
               Seed env0 (replicate 32 7) key0 = Some k1
             \<and> KeyID env0 k1 []
                 = Some (sha1 env0 ([0x99, 0, 51] @ pubbody (created key0) (ed25519_public env0 (replicate 32 7))), k2, h2)
             \<and> KeyID env0 k2 h2
                 = Some (sha1 env0 ([0x99, 0, 51] @ pubbody (created key0) (ed25519_public env0 (replicate 32 7))), k3, h3))"
proof -
  have len: "length (replicate 32 (7 :: byte)) = 32"
    by simp
  note T = KeyID_sha1_of_framed_public_key_body [OF env0_ok key0_facts(1) key0_facts(3) [of "[]"]]
  from T have "\<exists>k' h'. KeyID env0 key0 []
         = Some (sha1 env0 ([0x99, 0, 51] @ pubbody (created key0) (drop 32 (Key key0))), k', h')"
    by blast
  moreover from T len have "\<exists>k1 k2 h2 k3 h3.
               Seed env0 (replicate 32 7) key0 = Some k1
             \<and> KeyID env0 k1 []
                 = Some (sha1 env0 ([0x99, 0, 51] @ pubbody (created key0) (ed25519_public env0 (replicate 32 7))), k2, h2)
             \<and> KeyID env0 k2 h2
                 = Some (sha1 env0 ([0x99, 0, 51] @ pubbody (created key0) (ed25519_public env0 (replicate 32 7))), k3, h3)"
    by blast
  ultimately show ?thesis
    using env0_ok key0_facts len by blast
qed

section \<open>The protected packet and the packet cache\<close>

text \<open>
  \<open>EncPacket\<close> on a key whose packet is cached: it returns, and in the cached array it
  leaves the bytes 2 to 52 alone and sets byte 53 to 254.
\<close>

lemma EncPacket_cached:
  assumes cached: "packet k = Some p" and a: "arr p < length h" and cap90: "length (h ! arr p) = 90"
    and sha: "\<forall>x. length (sha256 e x) = 32" and rnd: "length saltIV = 24"
    and key: "32 \<le> length (Key k)"
  shows "\<exists>q h'. EncPacket e (Some saltIV) passphrase k h = Some (q, k, h')
           \<and> length h \<le> length h'
           \<and> (\<forall>b < length h. b \<noteq> arr p \<longrightarrow> h' ! b = h ! b)
           \<and> length (h' ! arr p) = 90
           \<and> take 51 (drop 2 (h' ! arr p)) = take 51 (drop 2 (h ! arr p))
           \<and> (h' ! arr p) ! 53 = 254"
proof -
  obtain skey where skey: "s2k (sha256 e) passphrase (take 8 saltIV) (decodeS2K s2kCount) = Some skey"
    "length skey = 32"
    using s2k_Some_length [OF sha, of "take 8 saltIV" passphrase s2kCount] rnd by auto
  define mpikey where "mpikey = mpi e (take 32 (Key k))"
  define sk where "sk = cfb_encrypt e skey (drop 8 saltIV) (mpikey @ sha1 e mpikey)"
  define c1 where "c1 = write_at (write_at (write_at (write_at (write_at (write_at (write_at (h ! arr p)
      53 [254]) 54 [9]) 55 [3]) 56 [8]) 57 (take 8 saltIV)) 65 [s2kCount]) 66 (drop 8 saltIV)"
  have len_c1: "length c1 = 90"
    using cap90 rnd by (simp add: c1_def)
  have c1_53: "c1 ! 53 = 254"
    using cap90 rnd by (simp add: c1_def nth_write_at)
  have c1_body: "take 51 (drop 2 c1) = take 51 (drop 2 (h ! arr p))"
    using cap90 rnd by (simp add: c1_def take_drop_write_at)
  show ?thesis
  proof (cases "82 + length sk \<le> 90")
    case True
    define c2 where "c2 = write_at (write_at c1 82 sk) 1 [of_nat (82 + length sk - 2)]"
    have E: "EncPacket e (Some saltIV) passphrase k h
               = Some (p\<lparr>len := 82 + length sk\<rparr>, k, h[arr p := c2])"
      using True a cap90 rnd key skey
      by (simp add: EncPacket_def Let_def Seckey_def aes_cfb_def Packet_cached [OF cached]
          reslice_def cap_def store_def upd_def append_slice_def
          c2_def c1_def sk_def mpikey_def)
    have "length c2 = 90" "c2 ! 53 = 254" "take 51 (drop 2 c2) = take 51 (drop 2 (h ! arr p))"
      using True len_c1 c1_53 c1_body by (simp_all add: c2_def nth_write_at take_drop_write_at)
    then show ?thesis
      using a by (simp add: E)
  next
    case False
    define c3 where "c3 = write_at (take 82 c1 @ sk @ replicate (max (82 + length sk)
        (growcap e 90 (82 + length sk)) - (82 + length sk)) 0) 1 [of_nat (82 + length sk - 2)]"
    have E: "EncPacket e (Some saltIV) passphrase k h
               = Some (\<lparr>arr = length h, len = 82 + length sk\<rparr>, k, h[arr p := c1] @ [c3])"
      using False a cap90 rnd key skey
      by (simp add: EncPacket_def Let_def Seckey_def aes_cfb_def Packet_cached [OF cached]
          reslice_def cap_def store_def upd_def append_slice_def bytes_def
          nth_append list_update_append
          c3_def c1_def sk_def mpikey_def)
    show ?thesis
      using a len_c1 c1_53 c1_body by (simp add: E nth_append)
  qed
qed

text \<open>
  C10. The claim is that \<open>EncPacket\<close> leaves the bytes that a later \<open>Packet\<close> returns
  unchanged. The code does not: \<open>k.Packet()[:57]\<close> is a slice of the cached array, and the
  writes of \<open>EncPacket\<close> at the positions 53 to 56 and the first appends go into that array.
  For every key with an empty cache, after \<open>Packet\<close> and then \<open>EncPacket\<close> the next \<open>Packet\<close>
  returns the same slice, whose byte 53 (the protection mode of the cleartext packet) was
  0 and now is 254.
\<close>

theorem EncPacket_overwrites_cached_packet:
  assumes "env_ok e" and "length (Key k) = 64" and "packet k = None" and "length saltIV = 24"
  shows "\<exists>p k1 h1 q h2.
           Packet e k h = Some (p, k1, h1)
         \<and> EncPacket e (Some saltIV) passphrase k1 h1 = Some (q, k1, h2)
         \<and> Packet e k1 h2 = Some (p, k1, h2)
         \<and> bytes p h1 ! 53 = 0 \<and> bytes p h2 ! 53 = 254"
proof -
  define mpikey where "mpikey = mpi e (take 32 (Key k))"
  define p where "p = \<lparr>arr = length h, len = 56 + length mpikey\<rparr>"
  define c where "c = 0xc5 # of_nat (54 + length mpikey) # pubbody (created k) (drop 32 (Key k))
                        @ 0 # mpikey @ be16 (checksum e mpikey) @ replicate (34 - length mpikey) 0"
  define k1 where "k1 = k\<lparr>packet := Some p\<rparr>"
  have m: "length mpikey \<le> 34"
    using assms(1,2) by (simp add: env_ok_def mpikey_def)
  have P: "Packet e k h = Some (p, k1, h @ [c])"
    using Packet_fresh [OF assms(3,2), of e h] m
    by (simp add: Let_def mpikey_def p_def c_def k1_def)
  have len: "length c = 90"
    using assms(2) m by (simp add: c_def)
  have c53: "c ! 53 = 0"
    using assms(2) by (simp add: c_def nth_append)
  have sha: "\<forall>x. length (sha256 e x) = 32"
    using assms(1) by (simp add: env_ok_def)
  obtain q h2 where E: "EncPacket e (Some saltIV) passphrase k1 (h @ [c]) = Some (q, k1, h2)"
    and h2: "(h2 ! arr p) ! 53 = 254"
    using EncPacket_cached [of k1 p "h @ [c]" e saltIV passphrase] sha assms(2,4) len
    by (auto simp: k1_def p_def)
  have "Packet e k1 h2 = Some (p, k1, h2)"
    by (simp add: Packet_cached k1_def)
  moreover have "bytes p (h @ [c]) ! 53 = 0" "bytes p h2 ! 53 = 254"
    using c53 h2 by (simp_all add: bytes_def p_def)
  ultimately show ?thesis
    using P E by blast
qed

theorem EncPacket_overwrites_cached_packet_witness:
  "env_ok env0 \<and> length (Key key0) = 64 \<and> packet key0 = None \<and> length (replicate 24 (9 :: byte)) = 24
   \<and> (\<exists>p k1 h1 q h2.
           Packet env0 key0 [] = Some (p, k1, h1)
         \<and> EncPacket env0 (Some (replicate 24 9)) [112, 119] k1 h1 = Some (q, k1, h2)
         \<and> Packet env0 k1 h2 = Some (p, k1, h2)
         \<and> bytes p h1 ! 53 = 0 \<and> bytes p h2 ! 53 = 254)"
proof -
  have len: "length (replicate 24 (9 :: byte)) = 24"
    by simp
  show ?thesis
    using EncPacket_overwrites_cached_packet [OF env0_ok key0_facts(1,2) len, of "[]" "[112, 119]"]
      env0_ok key0_facts(1,2) len
    by blast
qed

section \<open>The functions of the package keep the packet cache in order\<close>

text \<open>
  \<open>Seed\<close>, \<open>SetCreated\<close> and \<open>Load\<close> empty the cache or leave the key alone; \<open>Packet\<close> fills
  it; \<open>EncPacket\<close> writes into the cached array, but behind the public-key body;
  \<open>PubPacket\<close> copies out of it. Arrays that other code allocates do not disturb it.
\<close>

lemma cache_ok_append: "cache_ok k h \<Longrightarrow> cache_ok k (h @ cs)"
  by (auto simp: cache_ok_def nth_append split: option.splits)

lemma SetCreated_cache_ok: "cache_ok (SetCreated t k) h"
  by (simp add: SetCreated_def cache_ok_def)

lemma Seed_cache_ok: "Seed e s k = Some k' \<Longrightarrow> cache_ok k' h"
  by (auto simp: Seed_def cache_ok_def split: if_splits)

lemma Seed_key_length:
  assumes "env_ok e" and "Seed e s k = Some k'"
  shows "length (Key k') = 64"
  using assms by (auto simp: Seed_def env_ok_def split: if_splits)

lemma Load_finish_packet:
  "Load_finish e seckey pubkey (SetCreated c k) = (ex, k') \<Longrightarrow> packet k' = None"
  by (auto simp: Load_finish_def Seed_def SetCreated_def split: option.splits if_splits)

lemma Load_body_packet:
  "fst (snd (Load_body e pkt pw k)) = k \<or> packet (fst (snd (Load_body e pkt pw k))) = None"
proof -
  have s: "packet (SetCreated c k) = None" for c
    by (simp add: SetCreated_def)
  show ?thesis
    using s
    by (auto simp: Load_body_def Let_def dest: Load_finish_packet
        split: option.splits if_splits sum.splits prod.splits)
qed

lemma Load_cache_ok:
  assumes "cache_ok k h"
  shows "cache_ok (fst (snd (Load e pkt pw k))) h"
proof -
  have eq: "fst (snd (Load e pkt pw k)) = fst (snd (Load_body e pkt pw k))"
    by (simp add: Load_def split: prod.splits exit.splits)
  from Load_body_packet [of e pkt pw k] show ?thesis
  proof
    assume "fst (snd (Load_body e pkt pw k)) = k"
    then show ?thesis
      using assms by (simp add: eq)
  next
    assume "packet (fst (snd (Load_body e pkt pw k))) = None"
    then show ?thesis
      by (simp add: eq cache_ok_def)
  qed
qed

lemma Packet_cache_ok:
  assumes "env_ok e" and "length (Key k) = 64" and "cache_ok k h"
  shows "\<exists>p k' h'. Packet e k h = Some (p, k', h') \<and> packet k' = Some p \<and> cache_ok k' h'
           \<and> length h \<le> length h' \<and> take (length h) h' = h
           \<and> Key k' = Key k \<and> created k' = created k \<and> expires k' = expires k"
proof (cases "packet k")
  case None
  have m: "length (mpi e (take 32 (Key k))) \<le> 34"
    using assms(1,2) by (simp add: env_ok_def)
  show ?thesis
    using Packet_fresh [OF None assms(2) m, of h] assms(2) m
    by (simp add: Let_def cache_ok_def)
next
  case (Some p)
  then show ?thesis
    using assms(3) by (simp add: Packet_cached)
qed

lemma EncPacket_cache_ok:
  assumes "env_ok e" and "length (Key k) = 64" and "cache_ok k h" and "length saltIV = 24"
  shows "\<exists>q k' h'. EncPacket e (Some saltIV) passphrase k h = Some (q, k', h') \<and> cache_ok k' h'
           \<and> Key k' = Key k \<and> created k' = created k \<and> expires k' = expires k"
proof -
  obtain p k1 h1 where P: "Packet e k h = Some (p, k1, h1)" and c1: "packet k1 = Some p"
    and ok1: "cache_ok k1 h1"
    and k1: "Key k1 = Key k" "created k1 = created k" "expires k1 = expires k"
    using Packet_cache_ok [OF assms(1-3)] by blast
  have a: "arr p < length h1" and cap90: "length (h1 ! arr p) = 90"
    and lenp: "53 \<le> len p" "len p \<le> 90"
    and body: "take 51 (drop 2 (h1 ! arr p)) = pubbody (created k1) (drop 32 (Key k1))"
    using ok1 c1 by (simp_all add: cache_ok_def)
  have sha: "\<forall>x. length (sha256 e x) = 32"
    using assms(1) by (simp add: env_ok_def)
  have key: "32 \<le> length (Key k1)"
    using assms(2) k1 by simp
  obtain q h2 where E1: "EncPacket e (Some saltIV) passphrase k1 h1 = Some (q, k1, h2)"
    and grow: "length h1 \<le> length h2" and len2: "length (h2 ! arr p) = 90"
    and body2: "take 51 (drop 2 (h2 ! arr p)) = take 51 (drop 2 (h1 ! arr p))"
    using EncPacket_cached [OF c1 a cap90 sha assms(4) key, of passphrase] by blast
  have same: "EncPacket e (Some saltIV) passphrase k h = EncPacket e (Some saltIV) passphrase k1 h1"
    using P c1 by (simp add: EncPacket_def Let_def Packet_cached [OF c1] Seckey_def k1)
  have "cache_ok k1 h2"
    using c1 a grow len2 body2 body lenp by (simp add: cache_ok_def)
  then show ?thesis
    using E1 same k1 by simp
qed

lemma PubPacket_result:
  assumes e: "env_ok e" and key: "length (Key k) = 64" and ok: "cache_ok k h"
  shows "\<exists>q k' h'. PubPacket e k h = Some (q, k', h')
           \<and> bytes q h' = 0xc6 # 51 # pubbody (created k) (drop 32 (Key k))
           \<and> cache_ok k' h'
           \<and> Key k' = Key k \<and> created k' = created k \<and> expires k' = expires k"
proof -
  define body where "body = pubbody (created k) (drop 32 (Key k))"
  have lb: "length body = 51"
    using key by (simp add: body_def)
  define H where "H = h @ [0xc6 # 51 # replicate 51 (0::byte)]"
  have okH: "cache_ok k H"
    using ok by (simp add: H_def cache_ok_append)
  obtain p k1 h1 where P: "Packet e k H = Some (p, k1, h1)" and c1: "packet k1 = Some p"
    and ok1: "cache_ok k1 h1" and grow: "length H \<le> length h1" and pre: "take (length H) h1 = H"
    and k1: "Key k1 = Key k" "created k1 = created k" "expires k1 = expires k"
    using Packet_cache_ok [OF e key okH] by blast
  have a: "arr p < length h1" and cap90: "length (h1 ! arr p) = 90"
    and lenp: "53 \<le> len p" "len p \<le> 90"
    and b: "take 51 (drop 2 (h1 ! arr p)) = body"
    using ok1 c1 k1 by (simp_all add: cache_ok_def body_def)
  have q: "h1 ! length h = 0xc6 # 51 # replicate 51 0"
  proof -
    have "h1 ! length h = take (length H) h1 ! length h"
      by (simp add: H_def)
    then show ?thesis
      unfolding pre by (simp add: H_def)
  qed
  have ne: "arr p \<noteq> length h"
    using q cap90 by auto
  have lh: "length h < length h1"
    using grow by (simp add: H_def)
  define q0 where "q0 = \<lparr>arr = length h, len = 53\<rparr>"
  have start: "PubPacket e k h = do {
      (p, k', h') \<leftarrow> Packet e k H;
      src \<leftarrow> slice_from p 2 h';
      h'' \<leftarrow> copy_from q0 2 src h';
      Some (q0, k', h'') }"
    by (simp add: PubPacket_def make_slice_def SignKeyPubLen_def store_def upd_def H_def q0_def
        write_at_replicate write_at_Cons write_at_0)
  define src where "src = take (len p - 2) (drop 2 (h1 ! arr p))"
  have src: "slice_from p 2 h1 = Some src"
    using lenp cap90 by (simp add: slice_from_def slice_read_def cap_def src_def)
  have t51: "take 51 src = body"
  proof -
    have "min 51 (len p - 2) = 51"
      using lenp by simp
    then show ?thesis
      using b by (simp add: src_def)
  qed
  define h2 where "h2 = h1[length h := 0xc6 # 51 # body]"
  have w: "write_at (0xc6 # 51 # replicate 51 0) 2 body = 0xc6 # 51 # body"
    using lb by (simp add: write_at_def)
  have cp: "copy_from q0 2 src h1 = Some h2"
    by (simp add: q0_def copy_from_def copy_range_def cap_def q upd_def t51 h2_def w)
  have R: "PubPacket e k h = Some (q0, k1, h2)"
    by (simp add: start P src cp)
  have B: "bytes q0 h2 = 0xc6 # 51 # body"
    using lh lb by (simp add: bytes_def h2_def q0_def)
  have C: "cache_ok k1 h2"
    using ok1 c1 ne by (simp add: cache_ok_def h2_def)
  show ?thesis
    using R B C k1 by (simp add: body_def)
qed

section \<open>What sign computes\<close>

lemma write_at_write_at:
  "i + length a + length b \<le> length ys \<Longrightarrow>
     write_at (write_at ys i a) (i + length a) b = write_at ys i (a @ b)"
  by (cases a) (auto simp: write_at_def min_def ac_simps)

lemma nth_upd: "a < length h \<Longrightarrow> upd a f h ! b = (if b = a then f (h ! a) else h ! b)"
  by (simp add: upd_def)

lemma upd_upd: "a < length h \<Longrightarrow> upd a f (upd a g h) = upd a (\<lambda>x. f (g x)) h"
  by (simp add: upd_def)

lemma upd_mid [simp]: "upd (length h) f (h @ x # cs) = h @ f x # cs"
  by (simp add: upd_def)

lemma append_slice_in_place:
  "len p + length xs \<le> length (h ! arr p) \<Longrightarrow>
     append_slice g p xs h = (p\<lparr>len := len p + length xs\<rparr>, upd (arr p) (\<lambda>ys. write_at ys (len p) xs) h)"
  by (simp add: append_slice_def cap_def Let_def)

lemma append_twice_in_place:
  assumes "arr p < length h" and "len p + length xs + length ys \<le> length (h ! arr p)"
  shows "(case append_slice g p xs h of (p, h) \<Rightarrow> append_slice g p ys h)
           = append_slice g p (xs @ ys) h"
proof -
  have 1: "append_slice g p xs h
             = (p\<lparr>len := len p + length xs\<rparr>, upd (arr p) (\<lambda>zs. write_at zs (len p) xs) h)"
    using assms(2) by (simp add: append_slice_in_place)
  have 2: "append_slice g (p\<lparr>len := len p + length xs\<rparr>) ys
               (upd (arr p) (\<lambda>zs. write_at zs (len p) xs) h)
             = (p\<lparr>len := len p + length xs + length ys\<rparr>,
                upd (arr p) (\<lambda>zs. write_at zs (len p) (xs @ ys)) h)"
    using assms
    by (simp add: append_slice_in_place upd_def write_at_write_at)
  have 3: "append_slice g p (xs @ ys) h
             = (p\<lparr>len := len p + length xs + length ys\<rparr>,
                upd (arr p) (\<lambda>zs. write_at zs (len p) (xs @ ys)) h)"
    using assms(2) by (simp add: append_slice_in_place add.assoc)
  show ?thesis
    by (simp add: 1 2 3)
qed

lemma append_subpackets_in_place:
  assumes "arr p < length h" and "len p + length (concat (map ser sps)) \<le> length (h ! arr p)"
  shows "append_subpackets g sps p h = append_slice g p (concat (map ser sps)) h"
  using assms
proof (induction sps arbitrary: p h)
  case Nil
  then show ?case
    by (simp add: append_slice_in_place upd_def write_at_def)
next
  case (Cons sp sps)
  define rest where "rest = concat (map ser sps)"
  define p1 where "p1 = p\<lparr>len := len p + length (ser sp)\<rparr>"
  define h1 where "h1 = upd (arr p) (\<lambda>zs. write_at zs (len p) (ser sp)) h"
  have fits: "len p + length (ser sp) + length rest \<le> length (h ! arr p)"
    using Cons.prems(2) by (simp add: rest_def)
  have one: "(case append_slice g p [of_nat (length (Data sp) + 1)] h of
                (p, h) \<Rightarrow> (case append_slice g p [Type sp] h of
                   (p, h) \<Rightarrow> append_slice g p (Data sp) h))
             = append_slice g p (ser sp) h"
  proof -
    have a: "append_slice g p [of_nat (length (Data sp) + 1)] h
               = (p\<lparr>len := len p + 1\<rparr>,
                  upd (arr p) (\<lambda>zs. write_at zs (len p) [of_nat (length (Data sp) + 1)]) h)"
      using fits by (simp add: append_slice_in_place ser_def)
    have b: "(case append_slice g (p\<lparr>len := len p + 1\<rparr>) [Type sp]
                     (upd (arr p) (\<lambda>zs. write_at zs (len p) [of_nat (length (Data sp) + 1)]) h) of
                (p, h) \<Rightarrow> append_slice g p (Data sp) h)
             = append_slice g (p\<lparr>len := len p + 1\<rparr>) ([Type sp] @ Data sp)
                 (upd (arr p) (\<lambda>zs. write_at zs (len p) [of_nat (length (Data sp) + 1)]) h)"
      using fits Cons.prems(1)
      by (intro append_twice_in_place) (simp_all add: nth_upd ser_def)
    have c: "(case append_slice g p [of_nat (length (Data sp) + 1)] h of
                (p, h) \<Rightarrow> append_slice g p ([Type sp] @ Data sp) h)
             = append_slice g p ([of_nat (length (Data sp) + 1)] @ [Type sp] @ Data sp) h"
      using fits Cons.prems(1)
      by (intro append_twice_in_place) (simp_all add: ser_def)
    have c': "append_slice g (p\<lparr>len := len p + 1\<rparr>) ([Type sp] @ Data sp)
                 (upd (arr p) (\<lambda>zs. write_at zs (len p) [of_nat (length (Data sp) + 1)]) h)
              = append_slice g p ([of_nat (length (Data sp) + 1)] @ [Type sp] @ Data sp) h"
      using c unfolding a prod.case .
    show ?thesis
      unfolding a prod.case b c' by (simp add: ser_def)
  qed
  have step: "append_subpackets g (sp # sps) p h = append_subpackets g sps p1 h1"
    using one fits by (simp add: Let_def append_slice_in_place p1_def h1_def split: prod.splits)
  have "append_subpackets g sps p1 h1 = append_slice g p1 rest h1"
    unfolding rest_def using Cons.prems(1) fits
    by (intro Cons.IH) (simp_all add: p1_def h1_def nth_upd rest_def)
  also have "\<dots> = append_slice g p (ser sp @ rest) h"
    using append_twice_in_place [OF Cons.prems(1), of "ser sp" rest g] fits
    by (simp add: append_slice_in_place p1_def h1_def)
  finally have "append_subpackets g sps p1 h1 = append_slice g p (ser sp @ concat (map ser sps)) h"
    by (simp add: rest_def)
  then show ?case
    unfolding step by simp
qed

lemma unat_hashedLen8: "n \<le> 247 \<Longrightarrow> unat ((of_nat n :: 16 word) + 8) = n + 8"
  by (simp add: unat_word_ariths unat_of_nat)

lemma ucast_hashedLen6: "ucast ((of_nat n :: 16 word) + 6) = (of_nat (n + 6) :: byte)"
proof -
  have "(of_nat n :: 16 word) + 6 = of_nat (n + 6)"
    by simp
  moreover have "ucast (of_nat m :: 16 word) = (of_nat m :: byte)" for m
    by (rule bit_word_eqI) (auto simp: bit_simps)
  ultimately show ?thesis
    by (simp only:)
qed

lemma Packet_fresh_array:
  assumes "packet k = None" and "length (Key k) = 64" and "length (mpi e (take 32 (Key k))) \<le> 34"
  shows "Packet e k h =
           Some (\<lparr>arr = length h, len = 56 + length (mpi e (take 32 (Key k)))\<rparr>,
                 k\<lparr>packet := Some \<lparr>arr = length h, len = 56 + length (mpi e (take 32 (Key k)))\<rparr>\<rparr>,
                 h @ [packet_array e k])"
  using Packet_fresh [OF assms, of h] by (simp add: Let_def packet_array_def)

lemma packet_array_facts:
  assumes "length (Key k) = 64" and "length (mpi e (take 32 (Key k))) \<le> 34"
  shows "length (packet_array e k) = 90"
    and "take 51 (drop 2 (packet_array e k)) = pubbody (created k) (drop 32 (Key k))"
    and "packet_array e k ! 53 = 0"
  using assms by (simp_all add: packet_array_def nth_append)

lemma KeyID_fresh_eq:
  assumes "packet k = None" and "length (Key k) = 64" and "length (mpi e (take 32 (Key k))) \<le> 34"
  shows "KeyID e k h = Some (sha1 e ([0x99, 0, 51] @ pubbody (created k) (drop 32 (Key k))),
                             k\<lparr>packet := Some \<lparr>arr = length h, len = 56 + length (mpi e (take 32 (Key k)))\<rparr>\<rparr>,
                             h @ [packet_array e k])"
  by (simp add: KeyID_def Packet_fresh_array [OF assms] slice_read_def cap_def SignKeyPubLen_def
      packet_array_facts [OF assms(2,3)])

lemma take_header:
  assumes "length b = 2"
  shows "take (6 + length area) (x1 # x2 # x3 # x4 # b @ area @ rest) = x1 # x2 # x3 # x4 # b @ area"
proof -
  have eq: "x1 # x2 # x3 # x4 # b @ area @ rest = (x1 # x2 # x3 # x4 # b @ area) @ rest"
    by simp
  have len: "6 + length area = length (x1 # x2 # x3 # x4 # b @ area)"
    using assms by simp
  show ?thesis
    unfolding eq len take_append by simp
qed

lemma sign_prepare_result:
  assumes e: "env_ok e" and key: "length (Key k) = 64" and ok: "cache_ok k h"
    and fits: "length (hashed_area e inp k) \<le> 247"
  shows "\<exists>k' cs. sign_prepare e inp k h =
           Some (\<lparr>arr = length h, len = length (hashed_area e inp k) + 10\<rparr>,
                 hashed inp @ [4, sigtype inp, 22, 8] @ be16 (of_nat (length (hashed_area e inp k)))
                   @ hashed_area e inp k
                   @ [4, 0xff, 0, 0, 0, of_nat (length (hashed_area e inp k) + 6)],
                 k',
                 h @ ([0xc2, 0, 4, sigtype inp, 22, 8] @ be16 (of_nat (length (hashed_area e inp k)))
                      @ hashed_area e inp k @ be16 0
                      @ replicate (247 - length (hashed_area e inp k)) 0) # cs)
         \<and> Key k' = Key k \<and> created k' = created k \<and> expires k' = expires k
         \<and> cache_ok k' (h @ [] # cs)"
proof -
  define kid where "kid = sha1 e (0x99 # 0 # 51 # pubbody (created k) (drop 32 (Key k)))"
  have kid20: "length kid = 20"
    using e by (simp add: env_ok_def kid_def)
  have m: "length (mpi e (take 32 (Key k))) \<le> 34"
    using e key by (simp add: env_ok_def)
  define area where "area = hashed_area e inp k"
  have area: "ser \<lparr>Type = 2, Data = marshal32be e (ucast (sigtime inp))\<rparr>
              @ ser \<lparr>Type = 16, Data = drop 12 kid\<rparr> @ concat (map ser (subpackets inp)) = area"
    using kid20 by (simp add: area_def hashed_area_def kid_def)
  have fits': "length area \<le> 247"
    using fits by (simp add: area_def)
  have "\<exists>k' cs. sign_prepare e inp k h =
           Some (\<lparr>arr = length h, len = length area + 10\<rparr>,
                 hashed inp @ [4, sigtype inp, 22, 8] @ be16 (of_nat (length area))
                   @ area @ [4, 0xff, 0, 0, 0, of_nat (length area + 6)],
                 k',
                 h @ ([0xc2, 0, 4, sigtype inp, 22, 8] @ be16 (of_nat (length area))
                      @ area @ be16 0 @ replicate (247 - length area) 0) # cs)
         \<and> Key k' = Key k \<and> created k' = created k \<and> expires k' = expires k
         \<and> cache_ok k' (h @ [] # cs)"
  proof (cases "packet k")
    case None
    have K: "KeyID e k H = Some (kid,
        k\<lparr>packet := Some \<lparr>arr = length H, len = 56 + length (mpi e (take 32 (Key k)))\<rparr>\<rparr>,
        H @ [packet_array e k])" for H
      using KeyID_fresh_eq [OF None key m, of H] by (simp add: kid_def)
    have ok': "cache_ok (k\<lparr>packet := Some \<lparr>arr = Suc (length h), len = 56 + length (mpi e (take 32 (Key k)))\<rparr>\<rparr>)
                 (h @ [] # [packet_array e k])"
      using packet_array_facts [OF key m] m by (simp add: cache_ok_def nth_append)
    show ?thesis
      apply (rule exI [of _ "k\<lparr>packet := Some \<lparr>arr = Suc (length h), len = 56 + length (mpi e (take 32 (Key k)))\<rparr>\<rparr>"])
      apply (rule exI [of _ "[packet_array e k]"])
      using fits' kid20 ok'
      by (simp add: sign_prepare_def make_slice_def store_def K Let_def
          write_at_replicate write_at_Cons write_at_append write_at_0
          area
          append_subpackets_in_place append_slice_in_place
          PutUint16_def reslice_def cap_def slice_read_def unat_hashedLen8 ucast_hashedLen6
          nth_append take_header del: append_subpackets.simps)
  next
    case (Some p)
    have K: "cache_ok k H \<Longrightarrow> KeyID e k H = Some (kid, k, H)" for H
      using KeyID_cached [OF Some, of H e] by (simp add: kid_def)
    have ok': "cache_ok k (h @ [] # [])"
      using ok by (rule cache_ok_append)
    show ?thesis
      apply (rule exI [of _ k])
      apply (rule exI [of _ "[]"])
      using fits' kid20 ok ok'
      by (simp add: sign_prepare_def make_slice_def store_def K cache_ok_append Let_def
          write_at_replicate write_at_Cons write_at_append write_at_0
          area
          append_subpackets_in_place append_slice_in_place
          PutUint16_def reslice_def cap_def slice_read_def unat_hashedLen8 ucast_hashedLen6
          nth_append take_header del: append_subpackets.simps)
  qed
  then show ?thesis
    unfolding area_def .
qed

lemma append_slice_bytes:
  assumes "wf_slice p h" and "append_slice g p xs h = (p', h')"
  shows "bytes p' h' = bytes p h @ xs" and "wf_slice p' h'" and "len p' = len p + length xs"
proof -
  have "bytes p' h' = bytes p h @ xs \<and> wf_slice p' h' \<and> len p' = len p + length xs"
  proof (cases "len p + length xs \<le> length (h ! arr p)")
    case True
    then have "p' = p\<lparr>len := len p + length xs\<rparr>"
      and "h' = upd (arr p) (\<lambda>ys. write_at ys (len p) xs) h"
      using assms(2) by (simp_all add: append_slice_def cap_def Let_def)
    then show ?thesis
      using True assms(1) by (simp add: bytes_def wf_slice_def nth_upd write_at_def)
  next
    case False
    then have "p' = \<lparr>arr = length h, len = len p + length xs\<rparr>"
      and "h' = h @ [bytes p h @ xs @ replicate (max (len p + length xs)
                   (g (length (h ! arr p)) (len p + length xs)) - (len p + length xs)) 0]"
      using assms(2) by (simp_all add: append_slice_def cap_def Let_def)
    then show ?thesis
      using assms(1) by (simp add: bytes_def wf_slice_def)
  qed
  then show "bytes p' h' = bytes p h @ xs" and "wf_slice p' h'" and "len p' = len p + length xs"
    by simp_all
qed

lemma store_bytes:
  assumes "wf_slice p h" and "i < len p"
  shows "store p i v h = Some (upd (arr p) (\<lambda>xs. write_at xs i [v]) h)"
    and "bytes p (upd (arr p) (\<lambda>xs. write_at xs i [v]) h) = write_at (bytes p h) i [v]"
proof -
  show "store p i v h = Some (upd (arr p) (\<lambda>xs. write_at xs i [v]) h)"
    using assms by (simp add: store_def)
  have "len p - i = Suc (len p - Suc i)"
    using assms(2) by simp
  then show "bytes p (upd (arr p) (\<lambda>xs. write_at xs i [v]) h) = write_at (bytes p h) i [v]"
    using assms
    by (simp add: bytes_def wf_slice_def nth_upd write_at_def min_def drop_take)
qed


lemma append_slice_frame:
  assumes "wf_slice p h" and "append_slice g p xs h = (p', h')" and "a < length h" and "a \<noteq> arr p"
  shows "a < length h'" and "h' ! a = h ! a" and "a \<noteq> arr p'"
proof -
  have "a < length h' \<and> h' ! a = h ! a \<and> a \<noteq> arr p'"
    using assms
    by (auto simp: append_slice_def Let_def upd_def nth_append wf_slice_def split: if_splits)
  then show "a < length h'" and "h' ! a = h ! a" and "a \<noteq> arr p'"
    by simp_all
qed

lemma sign_result:
  assumes e: "env_ok e" and key: "length (Key k) = 64" and ok: "cache_ok k h"
    and fits: "length (hashed_area e inp k) \<le> 247"
  shows "\<exists>q k' h'. sign e inp k h = Some (q, k', h') \<and> bytes q h' = signature_packet e inp k
           \<and> Key k' = Key k \<and> created k' = created k \<and> expires k' = expires k
           \<and> cache_ok k' h'"
proof -
  define area where "area = hashed_area e inp k"
  define B where "B = [0xc2, 0, 4, sigtype inp, 22, 8] @ be16 (of_nat (length area))
                      @ area @ be16 0 @ replicate (247 - length area) 0"
  define p0 where "p0 = \<lparr>arr = length h, len = length area + 10\<rparr>"
  define sigsum where "sigsum = sha256 e (signature_digest_input e inp k)"
  define sig where "sig = ed25519_sign e (Key k) sigsum"
  obtain k' cs where SP: "sign_prepare e inp k h
      = Some (p0, signature_digest_input e inp k, k', h @ B # cs)"
    and k': "Key k' = Key k" "created k' = created k" "expires k' = expires k"
    and ok': "cache_ok k' (h @ [] # cs)"
    using sign_prepare_result [OF e key ok fits]
    by (auto simp: area_def B_def p0_def signature_digest_input_def)
  have lens: "length sigsum = 32" "length sig = 64"
    using e by (simp_all add: env_ok_def sigsum_def sig_def)
  have wf0: "wf_slice p0 (h @ B # cs)"
    using fits by (simp add: wf_slice_def p0_def B_def area_def)
  have "take (length area + 10)
          (([0xc2, 0, 4, sigtype inp, 22, 8] @ be16 (of_nat (length area)) @ area @ be16 0)
           @ replicate (247 - length area) 0)
        = [0xc2, 0, 4, sigtype inp, 22, 8] @ be16 (of_nat (length area)) @ area @ be16 0"
    unfolding take_append by simp
  then have b0: "bytes p0 (h @ B # cs)
              = [0xc2, 0, 4, sigtype inp, 22, 8] @ be16 (of_nat (length area)) @ area @ be16 0"
    by (simp add: bytes_def p0_def B_def)
  obtain p1 h1 where a1: "append_slice (growcap e) p0 (take 2 sigsum) (h @ B # cs) = (p1, h1)"
    by (cases "append_slice (growcap e) p0 (take 2 sigsum) (h @ B # cs)")
  note f1 = append_slice_bytes [OF wf0 a1]
  obtain p2 h2 where a2: "append_slice (growcap e) p1 (mpi e (take 32 sig)) h1 = (p2, h2)"
    by (cases "append_slice (growcap e) p1 (mpi e (take 32 sig)) h1")
  note f2 = append_slice_bytes [OF f1(2) a2]
  obtain p3 h3 where a3: "append_slice (growcap e) p2 (mpi e (drop 32 sig)) h2 = (p3, h3)"
    by (cases "append_slice (growcap e) p2 (mpi e (drop 32 sig)) h2")
  note f3 = append_slice_bytes [OF f2(2) a3]
  have len3: "Suc 0 < len p3"
    using f1(3) f2(3) f3(3) by (simp add: p0_def)
  note st = store_bytes [OF f3(2) len3, of "of_nat (len p3) - 2"]
  have S: "sign e inp k h
             = Some (p3, k', upd (arr p3) (\<lambda>xs. write_at xs 1 [of_nat (len p3) - 2]) h3)"
    using lens key
    by (simp add: sign_def SP k' Let_def a1 a2 a3 st(1)
        sigsum_def [symmetric] sig_def [symmetric])
  have len_eq: "len p3 = length area + 12 + length (mpi e (take 32 sig)) + length (mpi e (drop 32 sig))"
    using f1(3) f2(3) f3(3) lens by (simp add: p0_def)
  define body where "body = [4, sigtype inp, 22, 8] @ be16 (of_nat (length area)) @ area @ [0, 0]
                 @ take 2 sigsum @ mpi e (take 32 sig) @ mpi e (drop 32 sig)"
  have b3: "bytes p3 h3 = 0xc2 # 0 # body"
    by (simp add: f3(1) f2(1) f1(1) b0 body_def be16_def)
  have len_body: "len p3 = length body + 2"
    using len_eq lens by (simp add: body_def)
  have "bytes p3 (upd (arr p3) (\<lambda>xs. write_at xs (Suc 0) [of_nat (len p3) - 2]) h3)
          = write_at (bytes p3 h3) (Suc 0) [of_nat (len p3) - 2]"
    by (rule st(2))
  also have "\<dots> = [0xc2, of_nat (length body + 2) - 2] @ body"
    unfolding b3 len_body by (simp add: write_at_def)
  also have "\<dots> = signature_packet e inp k"
    unfolding signature_packet_def Let_def body_def area_def sigsum_def sig_def ..
  finally have R: "bytes p3 (upd (arr p3) (\<lambda>xs. write_at xs (Suc 0) [of_nat (len p3) - 2]) h3)
                     = signature_packet e inp k" .
  have C: "cache_ok k' (upd (arr p3) (\<lambda>xs. write_at xs (Suc 0) [of_nat (len p3) - 2]) h3)"
  proof (cases "packet k'")
    case None
    then show ?thesis
      by (simp add: cache_ok_def)
  next
    case (Some c)
    have c: "arr c < length (h @ [] # cs)" "length ((h @ [] # cs) ! arr c) = 90"
      "53 \<le> len c" "len c \<le> 90"
      "take 51 (drop 2 ((h @ [] # cs) ! arr c)) = pubbody (created k') (drop 32 (Key k'))"
      using ok' Some by (simp_all add: cache_ok_def)
    have ne: "arr c \<noteq> length h"
      using c(2) by (auto simp: nth_append)
    have same: "(h @ B # cs) ! arr c = (h @ [] # cs) ! arr c"
      using ne by (simp add: nth_append nth_Cons split: nat.splits)
    have c0: "arr c < length (h @ B # cs)" "arr c \<noteq> arr p0"
      using c(1) ne by (simp_all add: p0_def)
    note g1 = append_slice_frame [OF wf0 a1 c0]
    note g2 = append_slice_frame [OF f1(2) a2 g1(1,3)]
    note g3 = append_slice_frame [OF f2(2) a3 g2(1,3)]
    have "upd (arr p3) (\<lambda>xs. write_at xs (Suc 0) [of_nat (len p3) - 2]) h3 ! arr c
            = (h @ [] # cs) ! arr c"
      using g1(2) g2(2) g3 same by (simp add: upd_def)
    then show ?thesis
      using c g3(1) by (simp add: cache_ok_def Some upd_def)
  qed
  show ?thesis
    using S k' R C by simp
qed

section \<open>The signature packet\<close>

lemma be16_decode:
  assumes "n < 65536"
  shows "256 * unat (be16 (of_nat n) ! 0) + unat (be16 (of_nat n) ! 1) = n"
proof -
  have u: "unat (of_nat n :: 16 word) = n"
    using assms by (simp add: unat_of_nat)
  have "unat (drop_bit 8 (of_nat n :: 16 word)) = drop_bit 8 (unat (of_nat n :: 16 word))"
    by (rule unat_drop_bit_eq)
  then have d: "unat (drop_bit 8 (of_nat n :: 16 word)) = n div 256"
    unfolding u by (simp add: drop_bit_eq_div)
  have "unat (ucast (drop_bit 8 (of_nat n :: 16 word)) :: byte)
          = take_bit 8 (unat (drop_bit 8 (of_nat n :: 16 word)))"
    by (simp only: unsigned_ucast_eq) simp
  then have 1: "unat (ucast (drop_bit 8 (of_nat n :: 16 word)) :: byte) = n div 256"
    unfolding d using assms by (simp add: take_bit_eq_mod)
  have "unat (ucast (of_nat n :: 16 word) :: byte) = take_bit 8 (unat (of_nat n :: 16 word))"
    by (simp only: unsigned_ucast_eq)  simp
  then have 2: "unat (ucast (of_nat n :: 16 word) :: byte) = n mod 256"
    unfolding u by (simp add: take_bit_eq_mod)
  show ?thesis
    unfolding be16_def using 1 2 by simp
qed

lemma hashed_subpackets_signature_packet:
  assumes "length (hashed_area e inp k) \<le> 247"
  shows "hashed_subpackets (signature_packet e inp k) = hashed_area e inp k"
proof -
  define n where "n = length (hashed_area e inp k)"
  have n: "n < 65536"
    using assms by (simp add: n_def)
  have "signature_packet e inp k ! 6 = be16 (of_nat n) ! 0"
    "signature_packet e inp k ! 7 = be16 (of_nat n) ! 1"
    by (simp_all add: signature_packet_def Let_def n_def be16_def)
  then have len: "256 * unat (signature_packet e inp k ! 6) + unat (signature_packet e inp k ! 7) = n"
    using be16_decode [OF n] by simp
  have "drop 8 (signature_packet e inp k) = hashed_area e inp k @
          ([0, 0] @ take 2 (sha256 e (signature_digest_input e inp k))
           @ mpi e (take 32 (ed25519_sign e (Key k) (sha256 e (signature_digest_input e inp k))))
           @ mpi e (drop 32 (ed25519_sign e (Key k) (sha256 e (signature_digest_input e inp k)))))"
    by (simp add: signature_packet_def Let_def be16_def)
  then show ?thesis
    unfolding hashed_subpackets_def len by (simp add: n_def)
qed

lemma signature_packet_cong:
  "Key k' = Key k \<Longrightarrow> created k' = created k \<Longrightarrow> signature_packet e inp k' = signature_packet e inp k"
  by (simp add: signature_packet_def signature_digest_input_def hashed_area_def)

text \<open>
  C5. The hashed-subpacket area of every signature packet that \<open>sign\<close> returns begins with
  the signature-creation-time subpacket (type 2), followed by the issuer subpacket (type
  16, the last 8 bytes of the Key ID), followed by the subpackets of the input in the
  order in which the caller supplied them. Every signing operation (\<open>Bind\<close>, \<open>SelfSign\<close>,
  \<open>Certify\<close>, \<open>Sign\<close>, \<open>Clearsign\<close>) makes its packet by a call of \<open>sign\<close>.
\<close>

theorem sign_hashed_subpackets_order:
  assumes "env_ok e" and "length (Key k) = 64" and "cache_ok k h"
    and "length (hashed_area e inp k) \<le> 247"
  shows "\<exists>q k' h' keyid k1 h1.
           sign e inp k h = Some (q, k', h')
         \<and> KeyID e k h = Some (keyid, k1, h1) \<and> length keyid = 20
         \<and> hashed_subpackets (bytes q h')
             = ser \<lparr>Type = 2, Data = marshal32be e (ucast (sigtime inp))\<rparr>
               @ ser \<lparr>Type = 16, Data = drop (length keyid - 8) keyid\<rparr>
               @ concat (map ser (subpackets inp))"
proof -
  define keyid where "keyid = sha1 e ([0x99, 0, 51] @ pubbody (created k) (drop 32 (Key k)))"
  have len: "length keyid = 20"
    using assms(1) by (simp add: env_ok_def keyid_def)
  obtain k1 h1 where K: "KeyID e k h = Some (keyid, k1, h1)"
    using KeyID_result [OF assms(1-3)] by (auto simp: keyid_def)
  obtain q k' h' where S: "sign e inp k h = Some (q, k', h')"
    and b: "bytes q h' = signature_packet e inp k"
    using sign_result [OF assms] by blast
  have "hashed_subpackets (bytes q h')
          = ser \<lparr>Type = 2, Data = marshal32be e (ucast (sigtime inp))\<rparr>
            @ ser \<lparr>Type = 16, Data = drop (length keyid - 8) keyid\<rparr>
            @ concat (map ser (subpackets inp))"
    unfolding b hashed_subpackets_signature_packet [OF assms(4)]
    using len by (simp add: hashed_area_def keyid_def)
  then show ?thesis
    using S K len by blast
qed

lemma inp0_fits: "length (hashed_area env0 inp0 key0) = 22"
  by (simp add: hashed_area_def ser_def inp0_def env0_def sum_digest_def)

theorem sign_hashed_subpackets_order_witness:
  "env_ok env0 \<and> length (Key key0) = 64 \<and> cache_ok key0 []
   \<and> length (hashed_area env0 inp0 key0) \<le> 247
   \<and> (\<exists>q k' h' keyid k1 h1.
           sign env0 inp0 key0 [] = Some (q, k', h')
         \<and> KeyID env0 key0 [] = Some (keyid, k1, h1) \<and> length keyid = 20
         \<and> hashed_subpackets (bytes q h')
             = ser \<lparr>Type = 2, Data = marshal32be env0 (ucast (sigtime inp0))\<rparr>
               @ ser \<lparr>Type = 16, Data = drop (length keyid - 8) keyid\<rparr>
               @ concat (map ser (subpackets inp0)))"
proof -
  have fits: "length (hashed_area env0 inp0 key0) \<le> 247"
    by (simp add: inp0_fits)
  show ?thesis
    using sign_hashed_subpackets_order [OF env0_ok key0_facts(1) key0_facts(3) [of "[]"] fits]
      env0_ok key0_facts(1) key0_facts(3) [of "[]"] fits
    by blast
qed


text \<open>
  C6, as amended. After what the caller has written, the digest receives the bytes
  \<open>packet[2 : hashedLen + 8]\<close>, which are version, signature type, the two algorithm bytes,
  the two bytes of the length of the hashed area and the hashed area itself, and then the
  six bytes \<open>4, 0xFF, 0, 0, 0, n\<close>, where \<open>n\<close> is the length of the hashed-subpacket area
  plus 6 (modulo 256): the number of packet bytes that went into the digest, header
  included. The two bytes of the digest go into the packet behind the subpacket areas.
\<close>

theorem sign_final_trailer:
  assumes "env_ok e" and "length (Key k) = 64" and "cache_ok k h"
    and "length (hashed_area e inp k) \<le> 247"
  shows "\<exists>p written k1 h1 q k2 h2.
           sign_prepare e inp k h = Some (p, written, k1, h1)
         \<and> written = hashed inp
                     @ ([4, sigtype inp, 22, 8] @ be16 (of_nat (length (hashed_area e inp k)))
                        @ hashed_area e inp k)
                     @ [4, 0xff, 0, 0, 0, of_nat (length (hashed_area e inp k) + 6)]
         \<and> sign e inp k h = Some (q, k2, h2)
         \<and> hashed_subpackets (bytes q h2) = hashed_area e inp k
         \<and> take 2 (drop (length (hashed_area e inp k) + 10) (bytes q h2)) = take 2 (sha256 e written)"
proof -
  obtain k1 cs where SP: "sign_prepare e inp k h =
      Some (\<lparr>arr = length h, len = length (hashed_area e inp k) + 10\<rparr>,
            signature_digest_input e inp k, k1,
            h @ ([0xc2, 0, 4, sigtype inp, 22, 8] @ be16 (of_nat (length (hashed_area e inp k)))
                 @ hashed_area e inp k @ be16 0
                 @ replicate (247 - length (hashed_area e inp k)) 0) # cs)"
    using sign_prepare_result [OF assms] by (auto simp: signature_digest_input_def)
  obtain q k2 h2 where S: "sign e inp k h = Some (q, k2, h2)"
    and b: "bytes q h2 = signature_packet e inp k"
    using sign_result [OF assms] by blast
  have len32: "length (sha256 e (signature_digest_input e inp k)) = 32"
    using assms(1) by (simp add: env_ok_def)
  define front where "front = [0xc2, signature_packet e inp k ! 1, 4, sigtype inp, 22, 8]
      @ be16 (of_nat (length (hashed_area e inp k))) @ hashed_area e inp k @ [0, 0]"
  have split: "signature_packet e inp k = front
            @ (take 2 (sha256 e (signature_digest_input e inp k))
            @ mpi e (take 32 (ed25519_sign e (Key k) (sha256 e (signature_digest_input e inp k))))
            @ mpi e (drop 32 (ed25519_sign e (Key k) (sha256 e (signature_digest_input e inp k)))))"
    by (simp add: signature_packet_def Let_def front_def)
  have "length (hashed_area e inp k) + 10 = length front"
    by (simp add: front_def)
  then have "drop (length (hashed_area e inp k) + 10) (signature_packet e inp k)
          = take 2 (sha256 e (signature_digest_input e inp k))
            @ mpi e (take 32 (ed25519_sign e (Key k) (sha256 e (signature_digest_input e inp k))))
            @ mpi e (drop 32 (ed25519_sign e (Key k) (sha256 e (signature_digest_input e inp k))))"
    by (subst split) (simp only: drop_append, simp)
  then have pre: "take 2 (drop (length (hashed_area e inp k) + 10) (bytes q h2))
                    = take 2 (sha256 e (signature_digest_input e inp k))"
    using len32 by (simp add: b)
  show ?thesis
    using SP S pre hashed_subpackets_signature_packet [OF assms(4)]
    by (simp add: b signature_digest_input_def)
qed

theorem sign_final_trailer_witness:
  "env_ok env0 \<and> length (Key key0) = 64 \<and> cache_ok key0 []
   \<and> length (hashed_area env0 inp0 key0) \<le> 247
   \<and> (\<exists>p written k1 h1.
           sign_prepare env0 inp0 key0 [] = Some (p, written, k1, h1)
         \<and> written = hashed inp0
                     @ ([4, sigtype inp0, 22, 8] @ be16 (of_nat (length (hashed_area env0 inp0 key0)))
                        @ hashed_area env0 inp0 key0)
                     @ [4, 0xff, 0, 0, 0, of_nat (length (hashed_area env0 inp0 key0) + 6)])"
proof -
  have fits: "length (hashed_area env0 inp0 key0) \<le> 247"
    by (simp add: inp0_fits)
  show ?thesis
    using sign_final_trailer [OF env0_ok key0_facts(1) key0_facts(3) [of "[]"] fits]
      env0_ok key0_facts(1) key0_facts(3) [of "[]"] fits
    by blast
qed

text \<open>
  C6 as stated fails: for the self-certification input \<open>inp0\<close> the hashed-subpacket area
  has 22 bytes, and the last byte written to the digest is 28.
\<close>

theorem sign_final_trailer_counterexample:
  "prepare_written (sign_prepare env0 inp0 key0 [])
     = [1, 2, 3] @ [4, 0x13, 22, 8, 0, 22] @ hashed_area env0 inp0 key0 @ [4, 0xff, 0, 0, 0, 28]
   \<and> hashed_subpackets (result_bytes (sign env0 inp0 key0 [])) = hashed_area env0 inp0 key0
   \<and> length (hashed_area env0 inp0 key0) = 22
   \<and> last (prepare_written (sign_prepare env0 inp0 key0 [])) \<noteq> 22"
proof -
  have fits: "length (hashed_area env0 inp0 key0) \<le> 247"
    by (simp add: inp0_fits)
  obtain p k1 h1 where SP: "sign_prepare env0 inp0 key0 [] =
      Some (p, signature_digest_input env0 inp0 key0, k1, h1)"
    using sign_prepare_result [OF env0_ok key0_facts(1) key0_facts(3) [of "[]"] fits]
    by (auto simp: signature_digest_input_def)
  obtain q k2 h2 where S: "sign env0 inp0 key0 [] = Some (q, k2, h2)"
    and b: "bytes q h2 = signature_packet env0 inp0 key0"
    using sign_result [OF env0_ok key0_facts(1) key0_facts(3) [of "[]"] fits] by blast
  have w: "signature_digest_input env0 inp0 key0
             = [1, 2, 3] @ [4, 0x13, 22, 8, 0, 22] @ hashed_area env0 inp0 key0 @ [4, 0xff, 0, 0, 0, 28]"
    by (simp add: signature_digest_input_def inp0_fits be16_def) (simp add: inp0_def)
  show ?thesis
    using hashed_subpackets_signature_packet [OF fits]
    by (simp add: SP S b w prepare_written_def result_bytes_def inp0_fits)
qed

lemma Sign_result:
  assumes "env_ok e" and "length (Key k) = 64" and "cache_ok k h" and "failure src = None"
  shows "\<exists>q k' h'. Sign e now src k h = Some (Inr q, k', h')
           \<and> bytes q h' = signature_packet e
                 \<lparr>hashed = content src, sigtype = 0x00, sigtime = now,
                  subpackets = [fingerprint (sha1 e ([0x99, 0, 51]
                                   @ pubbody (created k) (drop 32 (Key k))))]\<rparr> k"
proof -
  define keyid where "keyid = sha1 e ([0x99, 0, 51] @ pubbody (created k) (drop 32 (Key k)))"
  define inp where "inp = \<lparr>hashed = content src, sigtype = 0x00, sigtime = now,
                              subpackets = [fingerprint keyid]\<rparr>"
  obtain k1 h1 where K: "KeyID e k h = Some (keyid, k1, h1)"
    and k1: "Key k1 = Key k" "created k1 = created k" "cache_ok k1 h1"
    using KeyID_result [OF assms(1-3)] by (auto simp: keyid_def)
  have fits: "length (hashed_area e inp k1) \<le> 247"
    using assms(1) by (simp add: hashed_area_def ser_def inp_def fingerprint_def env_ok_def keyid_def)
  obtain q k' h' where S: "sign e inp k1 h1 = Some (q, k', h')"
    and b: "bytes q h' = signature_packet e inp k1"
    using sign_result [OF assms(1) _ k1(3) fits] assms(2) k1(1) by auto
  have "Sign e now src k h = Some (Inr q, k', h')"
    using assms(4) S by (simp add: Sign_def K inp_def)
  then show ?thesis
    using b signature_packet_cong [OF k1(1,2), of e inp] by (auto simp: inp_def keyid_def)
qed

text \<open>
  The other signing operations, likewise: each returns the signature packet of the input
  that it puts together, with its own subpackets behind the two that \<open>sign\<close> supplies.
\<close>

lemma Bind_result:
  assumes e: "env_ok e" and key: "length (Key k) = 64" and ok: "cache_ok k h"
    and sub: "2 \<le> length (sub_pubpacket subkey)"
  shows "\<exists>q k' h'. Bind e subkey w k h = Some (q, k', h')
           \<and> bytes q h' = signature_packet e
                \<lparr>hashed = [0x99, 0, 51] @ pubbody (created k) (drop 32 (Key k))
                          @ [0x99, 0, of_int (int (length (sub_pubpacket subkey)) - 2)]
                          @ drop 2 (sub_pubpacket subkey),
                 sigtype = 0x18, sigtime = w,
                 subpackets = \<lparr>Type = 27, Data = [0x0c]\<rparr>
                   # (if sub_expires subkey \<noteq> 0
                      then [\<lparr>Type = 9, Data = marshal32be e
                               (ucast (sub_expires subkey - sub_created subkey))\<rparr>]
                      else [])\<rparr> k"
proof -
  define body where "body = pubbody (created k) (drop 32 (Key k))"
  have lb: "length body = 51"
    using key by (simp add: body_def)
  define inp where "inp = \<lparr>hashed = [0x99, 0, 51] @ body
                          @ [0x99, 0, of_int (int (length (sub_pubpacket subkey)) - 2)]
                          @ drop 2 (sub_pubpacket subkey),
                 sigtype = 0x18, sigtime = w,
                 subpackets = \<lparr>Type = 27, Data = [0x0c]\<rparr>
                   # (if sub_expires subkey \<noteq> 0
                      then [\<lparr>Type = 9, Data = marshal32be e
                               (ucast (sub_expires subkey - sub_created subkey))\<rparr>]
                      else [])\<rparr>"
  obtain p k1 h1 where P: "PubPacket e k h = Some (p, k1, h1)"
    and b: "bytes p h1 = 0xc6 # 51 # body" and ok1: "cache_ok k1 h1"
    and k1: "Key k1 = Key k" "created k1 = created k"
    using PubPacket_result [OF e key ok] by (auto simp: body_def)
  have key1: "length (Key k1) = 64"
    using key k1 by simp
  have fits: "length (hashed_area e inp k1) \<le> 247"
    using e by (simp add: hashed_area_def ser_def inp_def env_ok_def)
  obtain q k' h' where S: "sign e inp k1 h1 = Some (q, k', h')"
    and r: "bytes q h' = signature_packet e inp k1"
    using sign_result [OF e key1 ok1 fits] by blast
  have "Bind e subkey w k h = sign e inp k1 h1"
    using sub by (simp add: Bind_def P b framed_key_def inp_def lb)
  then show ?thesis
    using S r signature_packet_cong [OF k1, of e inp] by (simp add: inp_def body_def)
qed

lemma SelfSign_result:
  assumes e: "env_ok e" and key: "length (Key k) = 64" and ok: "cache_ok k h"
    and uid: "2 \<le> length uid"
  shows "\<exists>q k' h'. SelfSign e uid w flags k h = Some (q, k', h')
           \<and> bytes q h' = signature_packet e
                \<lparr>hashed = [0x99, 0, 51] @ pubbody (created k) (drop 32 (Key k))
                          @ [0xb4, 0, 0, 0, of_int (int (length uid) - 2)] @ drop 2 uid,
                 sigtype = 0x13, sigtime = w,
                 subpackets = \<lparr>Type = 27, Data = [0x03]\<rparr>
                   # (if expires k \<noteq> 0
                      then [\<lparr>Type = 9, Data = marshal32be e (ucast (expires k - created k))\<rparr>]
                      else [])
                   @ (if flags AND FlagMDC \<noteq> 0 then [\<lparr>Type = 30, Data = [0x01]\<rparr>] else [])\<rparr> k"
proof -
  define body where "body = pubbody (created k) (drop 32 (Key k))"
  have lb: "length body = 51"
    using key by (simp add: body_def)
  define inp where "inp = \<lparr>hashed = [0x99, 0, 51] @ body
                          @ [0xb4, 0, 0, 0, of_int (int (length uid) - 2)] @ drop 2 uid,
                 sigtype = 0x13, sigtime = w,
                 subpackets = \<lparr>Type = 27, Data = [0x03]\<rparr>
                   # (if expires k \<noteq> 0
                      then [\<lparr>Type = 9, Data = marshal32be e (ucast (expires k - created k))\<rparr>]
                      else [])
                   @ (if flags AND FlagMDC \<noteq> 0 then [\<lparr>Type = 30, Data = [0x01]\<rparr>] else [])\<rparr>"
  obtain p k1 h1 where P: "PubPacket e k h = Some (p, k1, h1)"
    and b: "bytes p h1 = 0xc6 # 51 # body" and ok1: "cache_ok k1 h1"
    and k1: "Key k1 = Key k" "created k1 = created k" and ex: "expires k1 = expires k"
    using PubPacket_result [OF e key ok] by (auto simp: body_def)
  have key1: "length (Key k1) = 64"
    using key k1 by simp
  have fits: "length (hashed_area e inp k1) \<le> 247"
    using e by (simp add: hashed_area_def ser_def inp_def env_ok_def)
  obtain q k' h' where S: "sign e inp k1 h1 = Some (q, k', h')"
    and r: "bytes q h' = signature_packet e inp k1"
    using sign_result [OF e key1 ok1 fits] by blast
  have "SelfSign e uid w flags k h = sign e inp k1 h1"
    using uid by (simp add: SelfSign_def P b framed_key_def inp_def k1 ex lb)
  then show ?thesis
    using S r signature_packet_cong [OF k1, of e inp] by (simp add: inp_def body_def)
qed

lemma Certify_result:
  assumes e: "env_ok e" and key: "length (Key k) = 64" and ok: "cache_ok k h"
  shows "\<exists>q k' h'. Certify e pkt uid w k h = Some (q, k', h')
           \<and> bytes q h' = signature_packet e
                \<lparr>hashed = [0x99] @ be16 (of_nat (length (ParsePacket e pkt))) @ ParsePacket e pkt
                          @ [0xb4] @ be32 (of_nat (length (ParsePacket e uid))) @ ParsePacket e uid,
                 sigtype = 0x10, sigtime = w,
                 subpackets = [fingerprint (sha1 e ([0x99, 0, 51]
                                  @ pubbody (created k) (drop 32 (Key k))))]\<rparr> k"
proof -
  define keyid where "keyid = sha1 e ([0x99, 0, 51] @ pubbody (created k) (drop 32 (Key k)))"
  define inp where "inp = \<lparr>hashed = [0x99] @ be16 (of_nat (length (ParsePacket e pkt)))
                            @ ParsePacket e pkt
                            @ [0xb4] @ be32 (of_nat (length (ParsePacket e uid))) @ ParsePacket e uid,
                 sigtype = 0x10, sigtime = w, subpackets = [fingerprint keyid]\<rparr>"
  obtain k1 h1 where K: "KeyID e k h = Some (keyid, k1, h1)"
    and k1: "Key k1 = Key k" "created k1 = created k" and ok1: "cache_ok k1 h1"
    using KeyID_result [OF e key ok] by (auto simp: keyid_def)
  have key1: "length (Key k1) = 64"
    using key k1 by simp
  have fits: "length (hashed_area e inp k1) \<le> 247"
    using e by (simp add: hashed_area_def ser_def inp_def fingerprint_def env_ok_def keyid_def)
  obtain q k' h' where S: "sign e inp k1 h1 = Some (q, k', h')"
    and r: "bytes q h' = signature_packet e inp k1"
    using sign_result [OF e key1 ok1 fits] by blast
  have "Certify e pkt uid w k h = sign e inp k1 h1"
    by (simp add: Certify_def K inp_def Let_def)
  then show ?thesis
    using S r signature_packet_cong [OF k1, of e inp] by (simp add: inp_def keyid_def)
qed



text \<open>
  The verifier accepts what \<open>sign\<close> makes for \<open>Sign\<close>. First the reading of subpackets and
  of MPIs, on what \<open>ser\<close> and the \<open>mpi\<close> of the specification write.
\<close>

lemma subpackets_of_Nil: "subpackets_of [] = Some []"
  by (simp add: subpackets_of.simps)

lemma subpackets_of_ser:
  assumes "length (Data sp) < 191"
  shows "subpackets_of (ser sp @ rest)
           = map_option (Cons (Type sp, Data sp)) (subpackets_of rest)"
proof -
  define l :: byte where "l = of_nat (length (Data sp) + 1)"
  have g: "unat (of_nat m :: byte) = m" if "m < 256" for m
    using that by (simp add: unat_of_nat)
  have u: "unat l = length (Data sp) + 1"
    unfolding l_def using assms by (intro g) simp
  have z: "l \<noteq> 0"
    using u by auto
  have s: "ser sp @ rest = l # Type sp # Data sp @ rest"
    by (simp add: ser_def l_def)
  show ?thesis
    unfolding s using u z assms
    by (subst subpackets_of.simps) simp
qed

lemma subpackets_of_ser_last:
  assumes "length (Data sp) < 191"
  shows "subpackets_of (ser sp) = Some [(Type sp, Data sp)]"
  using subpackets_of_ser [OF assms, of "[]"] by (simp add: subpackets_of_Nil)

lemma ed25519_correct0: "ed25519_correct env0 vfy0"
proof -
  have "map (\<lambda>b. b - 1) (map (\<lambda>b. b + 1) seed) = seed" for seed :: "byte list"
    by (induction seed) simp_all
  then show ?thesis
    by (simp add: ed25519_correct_def vfy0_def env0_def)
qed


lemma bit_length_bound: "n < 2 ^ k \<Longrightarrow> bit_length n \<le> k"
proof (induction k arbitrary: n)
  case 0
  then show ?case
    by (simp add: bit_length.simps)
next
  case (Suc k)
  have "n div 2 < 2 ^ k"
    using Suc.prems by auto
  then have "bit_length (n div 2) \<le> k"
    by (rule Suc.IH)
  then show ?case
    by (subst bit_length.simps) simp
qed

lemma bit_length_pos: "0 < n \<Longrightarrow> 0 < bit_length n"
  by (subst bit_length.simps) simp

lemma read_mpi_mpi_spec:
  assumes "length x = 32"
  shows "read_mpi 32 (mpi_spec x @ rest) = Some (x, rest)"
proof -
  define ds where "ds = dropWhile (\<lambda>b. b = 0) x"
  define zs where "zs = takeWhile (\<lambda>b. b = 0) x"
  have x: "x = zs @ ds"
    by (simp add: zs_def ds_def)
  have "set zs \<subseteq> {0}"
    unfolding zs_def by (auto dest: set_takeWhileD)
  then have zs: "zs = replicate (length zs) 0"
    by (induction zs) auto
  have len: "length zs + length ds = 32"
    using assms x by (metis length_append)
  show ?thesis
  proof (cases ds)
    case Nil
    then have m: "mpi_spec x = [0, 0]"
      by (simp add: mpi_spec_def ds_def [symmetric] be16_def)
    have xr: "replicate 32 0 = x"
      using x zs len Nil by simp
    show ?thesis
      unfolding m by (simp add: read_mpi_def xr)
  next
    case (Cons d ds')
    have "d \<noteq> 0"
      using Cons hd_dropWhile [of "\<lambda>b. b = 0" x] by (auto simp: ds_def)
    then have d0: "0 < unat d"
      by (simp add: unat_gt_0)
    have "unat d < 2 ^ 8"
      using unsigned_less [of d] by simp
    then have b8: "bit_length (unat d) \<le> 8"
      by (rule bit_length_bound)
    have b1: "0 < bit_length (unat d)"
      using d0 by (rule bit_length_pos)
    define bits where "bits = 8 * length ds' + bit_length (unat d)"
    have lds: "length ds = Suc (length ds')"
      using Cons by simp
    have bits: "bits < 65536"
      using b8 len lds by (simp add: bits_def)
    have m: "(bits + 7) div 8 = Suc (length ds')"
      using b1 b8 by (simp add: bits_def)
    have enc: "mpi_spec x = be16 (of_nat bits) @ d # ds'"
      by (simp add: mpi_spec_def ds_def [symmetric] Cons bits_def)
    obtain b1' b0' where be: "be16 (of_nat bits) = [b1', b0']"
      by (simp add: be16_def)
    have dec: "256 * unat b1' + unat b0' = bits"
      using be16_decode [OF bits] by (simp add: be)
    have pad: "replicate (32 - Suc (length ds')) 0 @ d # ds' = x"
    proof -
      have "32 - Suc (length ds') = length zs"
        using len lds by simp
      then show ?thesis
        using x zs Cons by simp
    qed
    have le: "Suc (length ds') \<le> 32"
      using len lds by simp
    show ?thesis
      using le pad by (simp add: enc be read_mpi_def dec m Let_def bits_def [symmetric])
  qed
qed

lemma mpi_standard0: "mpi_standard env0"
  by (simp add: mpi_standard_def env0_def read_mpi_mpi_spec)


lemma signature_packet_time:
  assumes "(ucast t1 :: 32 word) = ucast t2"
  shows "signature_packet e \<lparr>hashed = d, sigtype = c, sigtime = t1, subpackets = sps\<rparr> k
           = signature_packet e \<lparr>hashed = d, sigtype = c, sigtime = t2, subpackets = sps\<rparr> k"
  using assms by (simp add: signature_packet_def signature_digest_input_def hashed_area_def)

lemma verifier_accepts_signature_packet:
  assumes e: "env_ok e" and ed: "ed25519_correct e vfy" and mp: "mpi_standard e"
    and seed: "length seed = 32" and key: "Key k = seed @ ed25519_public e seed"
    and kid: "length keyid = 20"
  shows "verifier_accepts e vfy (ed25519_public e seed) doc
           (signature_packet e
              \<lparr>hashed = doc, sigtype = 0x00, sigtime = t, subpackets = [fingerprint keyid]\<rparr> k)"
proof -
  define inp where "inp = \<lparr>hashed = doc, sigtype = 0x00, sigtime = t,
                            subpackets = [fingerprint keyid]\<rparr>"
  define area where "area = hashed_area e inp k"
  define c where "c = marshal32be e (ucast t)"
  define iss where "iss = take 8 (drop 12 (sha1 e ([0x99, 0, 51]
                             @ pubbody (created k) (drop 32 (Key k)))))"
  have lc: "length c = 4" and liss: "length iss = 8"
    using e by (simp_all add: c_def iss_def env_ok_def)
  have area_eq: "area = ser \<lparr>Type = 2, Data = c\<rparr> @ ser \<lparr>Type = 16, Data = iss\<rparr>
                        @ ser \<lparr>Type = 33, Data = 4 # keyid\<rparr> @ []"
    by (simp add: area_def hashed_area_def inp_def fingerprint_def c_def iss_def)
  have la: "length area = 39"
    unfolding area_eq using lc liss kid by (simp add: ser_def)
  have sp: "subpackets_of area = Some [(2, c), (16, iss), (33, 4 # keyid)]"
    unfolding area_eq using lc liss kid by (simp add: subpackets_of_ser subpackets_of_ser_last)
  define sigsum where "sigsum = sha256 e (signature_digest_input e inp k)"
  define sig where "sig = ed25519_sign e (Key k) sigsum"
  define R where "R = mpi e (take 32 sig)"
  define S where "S = mpi e (drop 32 sig)"
  have lens: "length sigsum = 32" "length sig = 64"
    using e by (simp_all add: env_ok_def sigsum_def sig_def)
  have lR: "length R \<le> 34" and lS: "length S \<le> 34"
    using e lens by (simp_all add: env_ok_def R_def S_def)
  obtain p1 p0 where pre: "take 2 sigsum = [p1, p0]"
    using lens(1) by (cases sigsum; cases "tl sigsum") auto
  define body where "body = 4 # 0 # 22 # 8 # 0 # 39 # area @ 0 # 0 # p1 # p0 # R @ S"
  have lb: "length body = 49 + length R + length S"
    by (simp add: body_def la)
  have fields: "hashed inp = doc" "sigtype inp = 0"
    by (simp_all add: inp_def)
  have din: "signature_digest_input e inp k
               = doc @ 4 # 0 # 22 # 8 # 0 # 39 # area @ [4, 0xff, 0, 0, 0, 45]"
    by (simp add: signature_digest_input_def area_def [symmetric] la fields be16_def)
  have pkt: "signature_packet e inp k = 0xc2 # of_nat (length body) # body"
    by (simp add: signature_packet_def Let_def area_def [symmetric] la be16_def fields
        sigsum_def [symmetric] sig_def [symmetric] pre R_def S_def body_def lens)
  have lb256: "length body < 192" and lb49: "49 \<le> length body"
    using lb lR lS by simp_all
  have g: "unat (of_nat m :: byte) = m" if "m < 256" for m
    using that by (simp add: unat_of_nat)
  have L: "unat (of_nat (length body) :: byte) = length body"
    using lb256 by (intro g) simp
  have b4: "take 4 body = [4, 0, 22, 8]" and b45: "body ! 4 = 0" "body ! 5 = 39"
    by (simp_all add: body_def)
  have u: "body ! 45 = 0" "body ! 46 = 0"
    by (simp_all add: body_def nth_append la)
  have hs: "take 39 (drop 6 body) = area"
    by (simp add: body_def la)
  have t45: "take 45 body = 4 # 0 # 22 # 8 # 0 # 39 # area"
    by (simp add: body_def la)
  have pv: "take 2 (drop 47 body) = [p1, p0]"
    by (simp add: body_def la)
  have ms: "drop 49 body = R @ S"
    by (simp add: body_def la)
  have be: "be32 45 = [0, 0, 0, 45]"
    by (simp add: be32_def)
  have dg: "sha256 e (doc @ take 45 body @ 4 # 0xff # be32 45) = sigsum"
    by (simp add: t45 be sigsum_def din)
  have l32: "length (take 32 sig) = 32" "length (drop 32 sig) = 32"
    using lens(2) by simp_all
  have rR: "read_mpi 32 (R @ S) = Some (take 32 sig, S)"
    using mp l32(1) by (simp add: mpi_standard_def R_def)
  have rS: "read_mpi 32 S = Some (drop 32 sig, [])"
    using mp l32(2) by (metis R_def S_def append_Nil2 mpi_standard_def)
  have v: "vfy (ed25519_public e seed) sigsum sig"
    using ed seed by (simp add: ed25519_correct_def sig_def key)
  have "verifier_accepts e vfy (ed25519_public e seed) doc (signature_packet e inp k)"
    unfolding pkt verifier_accepts_def
    using lb49 lb256
    by (simp add: L b4 b45 u hs sp subpackets_of_Nil pv pre dg ms rR rS v lc Let_def)
  then show ?thesis
    by (simp add: inp_def)
qed

lemma seed0_facts: "length seed0 = 32" "Key key0 = seed0 @ ed25519_public env0 seed0"
  by (simp_all add: seed0_def key0_def)

text \<open>
  The verifier is not one that accepts everything: it accepts the packet that signs the
  document \<open>1, 2, 3\<close> at second 7, and rejects it for another document, and when the
  signature time in it is changed.
\<close>

lemma Sign_at_second_7: "Sign_bytes (Sign env0 7 src0 key0 []) =
  [194, 85, 4, 0, 22, 8, 0, 39, 5, 2, 0, 0, 0, 7, 9, 16, 98, 98, 98, 98, 98,
  98, 98, 98, 22, 33, 4, 98, 98, 98, 98, 98, 98, 98, 98, 98, 98, 98, 98, 98,
  98, 98, 98, 98, 98, 98, 98, 0, 0, 207, 207, 1, 0, 128, 128, 128, 128, 128,
  128, 128, 128, 128, 128, 128, 128, 128, 128, 128, 128, 128, 128, 128, 128,
  128, 128, 128, 128, 128, 128, 128, 128, 128, 128, 128, 128, 0, 0]"
proof -
  have src: "failure src0 = None"
    by (simp add: src0_def)
  obtain q k' h' where S: "Sign env0 7 src0 key0 [] = Some (Inr q, k', h')"
    and b: "bytes q h' = signature_packet env0
               \<lparr>hashed = content src0, sigtype = 0x00, sigtime = 7,
                subpackets = [fingerprint (sha1 env0 ([0x99, 0, 51]
                                 @ pubbody (created key0) (drop 32 (Key key0))))]\<rparr> key0"
    using Sign_result [OF env0_ok key0_facts(1) key0_facts(3) [of "[]"] src, of 7] by blast
  have "signature_packet env0
               \<lparr>hashed = content src0, sigtype = 0x00, sigtime = 7,
                subpackets = [fingerprint (sha1 env0 ([0x99, 0, 51]
                                 @ pubbody (created key0) (drop 32 (Key key0))))]\<rparr> key0 =
  [194, 85, 4, 0, 22, 8, 0, 39, 5, 2, 0, 0, 0, 7, 9, 16, 98, 98, 98, 98, 98,
  98, 98, 98, 22, 33, 4, 98, 98, 98, 98, 98, 98, 98, 98, 98, 98, 98, 98, 98,
  98, 98, 98, 98, 98, 98, 98, 0, 0, 207, 207, 1, 0, 128, 128, 128, 128, 128,
  128, 128, 128, 128, 128, 128, 128, 128, 128, 128, 128, 128, 128, 128, 128,
  128, 128, 128, 128, 128, 128, 128, 128, 128, 128, 128, 128, 0, 0]"
    by code_simp
  then show ?thesis
    by (simp add: Sign_bytes_def S b)
qed

lemma verifier_rejects_tampering:
  "verifier_accepts env0 vfy0 (ed25519_public env0 seed0) [1, 2, 3] (Sign_bytes (Sign env0 7 src0 key0 []))
   \<and> \<not> verifier_accepts env0 vfy0 (ed25519_public env0 seed0) [1, 2, 4]
         (Sign_bytes (Sign env0 7 src0 key0 []))
   \<and> \<not> verifier_accepts env0 vfy0 (ed25519_public env0 seed0) [1, 2, 3]
         ((Sign_bytes (Sign env0 7 src0 key0 []))[13 := 8])"
  unfolding Sign_at_second_7 by code_simp

text \<open>
  C4, as amended. \<open>Sign\<close> takes the signature time from the clock (\<open>time.Now().Unix()\<close>, the
  parameter \<open>now\<close>), of which the low 32 bits go into the packet. For a fixed key, creation
  time and document, and clock readings that agree modulo \<open>2^32\<close>, two runs return the same
  packet byte for byte, whatever the packet cache and the store hold: for any two states
  of a key with the same private key and creation time, and for any two keys seeded with
  the same 32-byte seed. The verifier accepts the packet as a signature of the document
  under the public key of the seed, given that Ed25519 verifies what it signs and that
  \<^verbatim>\<open>mpi\<close> writes standard MPIs.
\<close>

theorem Sign_reproducible_at_equal_clock_and_verifies:
  assumes "env_ok e" and "failure src = None"
    and "length (Key k1) = 64" and "Key k2 = Key k1" and "created k2 = created k1"
    and "cache_ok k1 h1" and "cache_ok k2 h2"
    and "(ucast now1 :: 32 word) = ucast now2"
    and "ed25519_correct e vfy" and "mpi_standard e"
  shows "(\<exists>q1 k1' h1' q2 k2' h2'.
            Sign e now1 src k1 h1 = Some (Inr q1, k1', h1')
          \<and> Sign e now2 src k2 h2 = Some (Inr q2, k2', h2')
          \<and> bytes q1 h1' = bytes q2 h2'
          \<and> (\<forall>seed. length seed = 32 \<and> Key k1 = seed @ ed25519_public e seed \<longrightarrow>
                verifier_accepts e vfy (ed25519_public e seed) (content src) (bytes q1 h1')))
       \<and> (\<forall>seed ka ha kb hb. length seed = 32 \<and> created ka = created kb \<longrightarrow>
            (\<exists>ka' kb' qa ka'' ha' qb kb'' hb'.
               Seed e seed ka = Some ka' \<and> Seed e seed kb = Some kb'
             \<and> Sign e now1 src ka' ha = Some (Inr qa, ka'', ha')
             \<and> Sign e now2 src kb' hb = Some (Inr qb, kb'', hb')
             \<and> bytes qa ha' = bytes qb hb'
             \<and> verifier_accepts e vfy (ed25519_public e seed) (content src) (bytes qa ha')))"
proof -
  have same: "\<exists>q1 k1' h1' q2 k2' h2'.
            Sign e now1 src ka ha = Some (Inr q1, k1', h1')
          \<and> Sign e now2 src kb hb = Some (Inr q2, k2', h2')
          \<and> bytes q1 h1' = bytes q2 h2'
          \<and> (\<forall>seed. length seed = 32 \<and> Key ka = seed @ ed25519_public e seed \<longrightarrow>
                verifier_accepts e vfy (ed25519_public e seed) (content src) (bytes q1 h1'))"
    if P: "length (Key ka) = 64" "Key kb = Key ka" "created kb = created ka"
      "cache_ok ka ha" "cache_ok kb hb" for ka ha kb hb
  proof -
    define keyid where "keyid = sha1 e ([0x99, 0, 51] @ pubbody (created ka) (drop 32 (Key ka)))"
    have kid: "length keyid = 20"
      using assms(1) by (simp add: env_ok_def keyid_def)
    obtain q1 k1' h1' where A: "Sign e now1 src ka ha = Some (Inr q1, k1', h1')"
      and a: "bytes q1 h1' = signature_packet e
                 \<lparr>hashed = content src, sigtype = 0x00, sigtime = now1,
                  subpackets = [fingerprint keyid]\<rparr> ka"
      using Sign_result [OF assms(1) P(1) P(4) assms(2), where now = now1] by (auto simp: keyid_def)
    have KB: "length (Key kb) = 64"
      using P(1,2) by simp
    obtain q2 k2' h2' where B: "Sign e now2 src kb hb = Some (Inr q2, k2', h2')"
      and b: "bytes q2 h2' = signature_packet e
                 \<lparr>hashed = content src, sigtype = 0x00, sigtime = now2,
                  subpackets = [fingerprint keyid]\<rparr> kb"
      using Sign_result [OF assms(1) KB P(5) assms(2), where now = now2] by (auto simp: keyid_def P(2,3))
    have "bytes q1 h1' = bytes q2 h2'"
      unfolding a b signature_packet_time [OF assms(8)]
      by (rule signature_packet_cong [OF P(2,3), symmetric])
    moreover have "verifier_accepts e vfy (ed25519_public e seed) (content src) (bytes q1 h1')"
      if "length seed = 32" "Key ka = seed @ ed25519_public e seed" for seed
      unfolding a
      by (rule verifier_accepts_signature_packet [OF assms(1,9,10) that kid])
    ultimately show ?thesis
      using A B by blast
  qed
  have seeded: "\<exists>ka' kb' qa ka'' ha' qb kb'' hb'.
               Seed e seed ka = Some ka' \<and> Seed e seed kb = Some kb'
             \<and> Sign e now1 src ka' ha = Some (Inr qa, ka'', ha')
             \<and> Sign e now2 src kb' hb = Some (Inr qb, kb'', hb')
             \<and> bytes qa ha' = bytes qb hb'
             \<and> verifier_accepts e vfy (ed25519_public e seed) (content src) (bytes qa ha')"
    if Q: "length seed = 32" "created ka = created kb" for seed ka ha kb hb
  proof -
    define ka' where "ka' = ka\<lparr>Key := seed @ ed25519_public e seed, packet := None\<rparr>"
    define kb' where "kb' = kb\<lparr>Key := seed @ ed25519_public e seed, packet := None\<rparr>"
    have S: "Seed e seed ka = Some ka'" "Seed e seed kb = Some kb'"
      using Q(1) by (simp_all add: Seed_def ka'_def kb'_def)
    have f: "length (Key ka') = 64" "Key kb' = Key ka'" "created kb' = created ka'"
      "cache_ok ka' ha" "cache_ok kb' hb"
      using Q assms(1) by (simp_all add: ka'_def kb'_def env_ok_def cache_ok_def)
    have K: "Key ka' = seed @ ed25519_public e seed"
      by (simp add: ka'_def)
    from same [OF f] S Q(1) K show ?thesis
      by blast
  qed
  show ?thesis
    using same [OF assms(3-7)] seeded by blast
qed

theorem Sign_reproducible_at_equal_clock_and_verifies_witness:
  "env_ok env0 \<and> failure src0 = None \<and> length (Key key0) = 64 \<and> Key key0 = Key key0
   \<and> created key0 = created key0 \<and> cache_ok key0 [] \<and> cache_ok key0 [[1, 2, 3]]
   \<and> (ucast (7 :: 64 word) :: 32 word) = ucast (0x100000007 :: 64 word)
   \<and> ed25519_correct env0 vfy0 \<and> mpi_standard env0
   \<and> length seed0 = 32 \<and> Key key0 = seed0 @ ed25519_public env0 seed0
   \<and> (\<exists>q1 k1' h1' q2 k2' h2'.
            Sign env0 7 src0 key0 [] = Some (Inr q1, k1', h1')
          \<and> Sign env0 0x100000007 src0 key0 [[1, 2, 3]] = Some (Inr q2, k2', h2')
          \<and> bytes q1 h1' = bytes q2 h2'
          \<and> verifier_accepts env0 vfy0 (ed25519_public env0 seed0) (content src0) (bytes q1 h1'))
   \<and> created key_new = created key_new
   \<and> (\<exists>ka' kb' qa ka'' ha' qb kb'' hb'.
            Seed env0 seed0 key_new = Some ka' \<and> Seed env0 seed0 key_new = Some kb'
          \<and> Sign env0 7 src0 ka' [] = Some (Inr qa, ka'', ha')
          \<and> Sign env0 0x100000007 src0 kb' [[1, 2, 3]] = Some (Inr qb, kb'', hb')
          \<and> bytes qa ha' = bytes qb hb'
          \<and> verifier_accepts env0 vfy0 (ed25519_public env0 seed0) (content src0) (bytes qa ha'))"
proof -
  have src: "failure src0 = None"
    by (simp add: src0_def)
  have t: "(ucast (7 :: 64 word) :: 32 word) = ucast (0x100000007 :: 64 word)"
    by simp
  note T = Sign_reproducible_at_equal_clock_and_verifies
      [OF env0_ok src key0_facts(1) refl refl key0_facts(3) [of "[]"] key0_facts(3) [of "[[1, 2, 3]]"]
          t ed25519_correct0 mpi_standard0]
  have A: "\<exists>q1 k1' h1' q2 k2' h2'.
            Sign env0 7 src0 key0 [] = Some (Inr q1, k1', h1')
          \<and> Sign env0 0x100000007 src0 key0 [[1, 2, 3]] = Some (Inr q2, k2', h2')
          \<and> bytes q1 h1' = bytes q2 h2'
          \<and> verifier_accepts env0 vfy0 (ed25519_public env0 seed0) (content src0) (bytes q1 h1')"
    using T seed0_facts by blast
  have B: "\<exists>ka' kb' qa ka'' ha' qb kb'' hb'.
            Seed env0 seed0 key_new = Some ka' \<and> Seed env0 seed0 key_new = Some kb'
          \<and> Sign env0 7 src0 ka' [] = Some (Inr qa, ka'', ha')
          \<and> Sign env0 0x100000007 src0 kb' [[1, 2, 3]] = Some (Inr qb, kb'', hb')
          \<and> bytes qa ha' = bytes qb hb'
          \<and> verifier_accepts env0 vfy0 (ed25519_public env0 seed0) (content src0) (bytes qa ha')"
    using T seed0_facts(1) by blast
  show ?thesis
    using A B env0_ok src key0_facts(1) key0_facts(3) [of "[]"] key0_facts(3) [of "[[1, 2, 3]]"]
      t ed25519_correct0 mpi_standard0 seed0_facts
    by simp
qed

text \<open>
  C4 as stated fails: the same key and the same document signed at the seconds 7 and 8
  give different packets (byte 13 is the last byte of the signature time).
\<close>

theorem Sign_packet_depends_on_clock_counterexample:
  "Sign_bytes (Sign env0 7 src0 key0 []) \<noteq> Sign_bytes (Sign env0 8 src0 key0 [])"
proof -
  have src: "failure src0 = None"
    by (simp add: src0_def)
  have nth: "Sign_bytes (Sign env0 now src0 key0 []) ! 13 = ucast (ucast now :: 32 word)" for now
  proof -
    obtain q k' h' where S: "Sign env0 now src0 key0 [] = Some (Inr q, k', h')"
      and b: "bytes q h' = signature_packet env0
                 \<lparr>hashed = content src0, sigtype = 0x00, sigtime = now,
                  subpackets = [fingerprint (sha1 env0 ([0x99, 0, 51]
                                   @ pubbody (created key0) (drop 32 (Key key0))))]\<rparr> key0"
      using Sign_result [OF env0_ok key0_facts(1) key0_facts(3) [of "[]"] src, of now] by blast
    have eq: "Sign_bytes (Sign env0 now src0 key0 []) = signature_packet env0
                 \<lparr>hashed = content src0, sigtype = 0x00, sigtime = now,
                  subpackets = [fingerprint (sha1 env0 ([0x99, 0, 51]
                                   @ pubbody (created key0) (drop 32 (Key key0))))]\<rparr> key0"
      by (simp add: Sign_bytes_def S b)
    have "signature_packet env0
                 \<lparr>hashed = content src0, sigtype = 0x00, sigtime = now,
                  subpackets = [fingerprint (sha1 env0 ([0x99, 0, 51]
                                   @ pubbody (created key0) (drop 32 (Key key0))))]\<rparr> key0 ! 13
            = ucast (ucast now :: 32 word)"
      by (simp add: signature_packet_def Let_def hashed_area_def ser_def
          be16_def be32_def env0_def)
    then show ?thesis
      unfolding eq .
  qed
  have "Sign_bytes (Sign env0 7 src0 key0 []) ! 13 \<noteq> Sign_bytes (Sign env0 8 src0 key0 []) ! 13"
    unfolding nth by simp
  then show ?thesis
    by metis
qed

section \<open>Loading a secret key packet: properties\<close>

lemma header_Uint32:
  assumes "header_ok pkt"
  shows "\<exists>c. Uint32 (drop 1 (Body pkt)) = Some c"
  using assms by (auto simp: header_ok_def Uint32_def)

lemma Load_body_after_header:
  assumes "header_ok pkt" and "Uint32 (drop 1 (Body pkt)) = Some c"
  shows "Load_body e pkt passphrase k =
    (if Body pkt ! 51 = 0 then
           (case Load_unencrypted e (Body pkt) of
              Inl ex \<Rightarrow> (ex, SetCreated (ucast c) k, Body pkt)
            | Inr seckey \<Rightarrow>
                (case Load_finish e seckey (take 32 (drop 19 (Body pkt))) (SetCreated (ucast c) k) of
                   (ex, k) \<Rightarrow> (ex, k, Body pkt)))
         else if Body pkt ! 51 = 254 then
           (case Load_encrypted e (Body pkt) (BodySpare pkt) passphrase of
              (Inl ex, body) \<Rightarrow> (ex, SetCreated (ucast c) k, body)
            | (Inr seckey, body) \<Rightarrow>
                (case Load_finish e seckey (take 32 (drop 19 (Body pkt))) (SetCreated (ucast c) k) of
                   (ex, k) \<Rightarrow> (ex, k, body)))
         else (case Load_finish e None (take 32 (drop 19 (Body pkt))) (SetCreated (ucast c) k) of
                 (ex, k) \<Rightarrow> (ex, k, Body pkt)))"
proof -
  from assms have h: "Tag pkt = 5" "52 \<le> length (Body pkt)" "Body pkt ! 0 = 0x04"
    "take 14 (drop 5 (Body pkt)) = static_bytes"
    by (simp_all add: header_ok_def)
  have len: "Body pkt \<noteq> []"
    using h(2) by auto
  show ?thesis
    using h len assms(2)
    by (simp add: static_bytes_def Load_body_def Let_def index_def subslice_def slice_tail_def)
qed

lemma Load_finish_seed:
  assumes "length seed = 32"
  shows "Load_finish e (Some seed) pubkey k =
           (if ed25519_public e seed \<noteq> pubkey then Returned (Some InvalidPacketErr) else Returned None,
            k\<lparr>Key := seed @ ed25519_public e seed, packet := None\<rparr>)"
  using assms by (simp add: Load_finish_def Seed_def Pubkey_def)

text \<open>
  C9. For every secret-key packet that passes the checks of the static bytes and from which
  \<open>Load\<close> recovers a 32-byte seed, from the cleartext MPI or from the decrypted one, \<open>Load\<close>
  makes the key pair from the seed (\<open>Seed\<close>) and compares its public key with the bytes 19
  to 50 of the packet body: it returns \<open>InvalidPacketErr\<close> if they differ and \<open>nil\<close> if they
  are equal. In both cases the key then holds the seed's key pair and the creation time of
  the packet.
\<close>

theorem Load_compares_public_key:
  assumes "header_ok pkt"
    and "(Body pkt ! 51 = 0 \<and> Load_unencrypted e (Body pkt) = Inr (Some seed))
       \<or> (Body pkt ! 51 = 254
          \<and> fst (Load_encrypted e (Body pkt) (BodySpare pkt) passphrase) = Inr (Some seed))"
    and "length seed = 32"
  shows "fst (Load e pkt passphrase k)
           = (if ed25519_public e seed = take 32 (drop 19 (Body pkt)) then None
              else Some InvalidPacketErr)
       \<and> Key (fst (snd (Load e pkt passphrase k))) = seed @ ed25519_public e seed
       \<and> created (fst (snd (Load e pkt passphrase k)))
           = ucast (the (Uint32 (drop 1 (Body pkt))))"
proof -
  obtain c where c: "Uint32 (drop 1 (Body pkt)) = Some c"
    using header_Uint32 [OF assms(1)] by blast
  note L = Load_body_after_header [OF assms(1) c]
  from assms(2) show ?thesis
  proof
    assume "Body pkt ! 51 = 0 \<and> Load_unencrypted e (Body pkt) = Inr (Some seed)"
    then show ?thesis
      using c by (simp add: Load_def L Load_finish_seed [OF assms(3)] SetCreated_def)
  next
    assume a: "Body pkt ! 51 = 254
          \<and> fst (Load_encrypted e (Body pkt) (BodySpare pkt) passphrase) = Inr (Some seed)"
    then obtain body' where "Load_encrypted e (Body pkt) (BodySpare pkt) passphrase
        = (Inr (Some seed), body')"
      by (cases "Load_encrypted e (Body pkt) (BodySpare pkt) passphrase") simp
    then show ?thesis
      using a c
      by (simp add: Load_def L Load_finish_seed [OF assms(3)] SetCreated_def)
  qed
qed


lemma pkt0_facts:
  "header_ok pkt0" "Body pkt0 ! 51 = 0" "Load_unencrypted env0 (Body pkt0) = Inr (Some seed0)"
  "length seed0 = 32" "ed25519_public env0 seed0 = take 32 (drop 19 (Body pkt0))"
  by code_simp+

theorem Load_compares_public_key_witness:
  "header_ok pkt0
   \<and> ((Body pkt0 ! 51 = 0 \<and> Load_unencrypted env0 (Body pkt0) = Inr (Some seed0))
      \<or> (Body pkt0 ! 51 = 254
         \<and> fst (Load_encrypted env0 (Body pkt0) (BodySpare pkt0) None) = Inr (Some seed0)))
   \<and> length seed0 = 32
   \<and> fst (Load env0 pkt0 None key_new) = None
   \<and> Key (fst (snd (Load env0 pkt0 None key_new))) = seed0 @ ed25519_public env0 seed0"
proof -
  have d: "(Body pkt0 ! 51 = 0 \<and> Load_unencrypted env0 (Body pkt0) = Inr (Some seed0))
      \<or> (Body pkt0 ! 51 = 254
         \<and> fst (Load_encrypted env0 (Body pkt0) (BodySpare pkt0) None) = Inr (Some seed0))"
    using pkt0_facts(2,3) by blast
  show ?thesis
    using Load_compares_public_key [OF pkt0_facts(1) d pkt0_facts(4), of key_new]
      pkt0_facts d
    by simp
qed


lemma Load_encrypted_None:
  "Load_encrypted e body spare None = (Inl (Returned (Some DecryptKeyErr)), body)"
  by (simp add: Load_encrypted_def)

lemma Load_encrypted_mismatch:
  assumes "80 \<le> length body" and "body ! 52 = 9" and "body ! 53 = 3" and "body ! 54 = 8"
    and "s2k (sha256 e) pw (take 8 (drop 55 body)) (decodeS2K (body ! 63)) = Some key"
    and "length key \<in> {16, 24, 32}"
    and "mpiDecode e (cfb_decrypt e key (take 16 (drop 64 body)) (drop 80 body)) 32
           = MpiReturn seckey check"
    and "seckey = None \<or> sha1 e (mpi e (the seckey)) \<noteq> check"
  shows "fst (Load_encrypted e body spare (Some pw)) = Inl (Returned (Some DecryptKeyErr))"
proof -
  have iv: "length (take 16 (drop 64 body)) = 16"
    using assms(1) by simp
  show ?thesis
    using assms iv
    by (auto simp: Load_encrypted_def index_def subslice_def slice_tail_def aes_cfb_def Let_def
        split: option.splits)
qed

text \<open>
  C3. For every passphrase-protected secret-key packet (protection-mode byte 254, static
  bytes as \<open>Load\<close> expects them), \<open>Load\<close> returns \<open>DecryptKeyErr\<close> when the passphrase is
  \<open>nil\<close>, and also when a passphrase is given and the digest recomputed over the decrypted
  secret key differs from the one stored behind it (or \<open>mpiDecode\<close> finds no secret key in
  the decrypted bytes). It is the one error value in all these cases.
\<close>

theorem Load_decrypt_key_error:
  assumes "header_ok pkt" and "Body pkt ! 51 = 254"
  shows "fst (Load e pkt None k) = Some DecryptKeyErr
       \<and> (\<forall>pw key seckey check.
            80 \<le> length (Body pkt) \<and> Body pkt ! 52 = 9 \<and> Body pkt ! 53 = 3 \<and> Body pkt ! 54 = 8
          \<and> s2k (sha256 e) pw (take 8 (drop 55 (Body pkt))) (decodeS2K (Body pkt ! 63)) = Some key
          \<and> length key \<in> {16, 24, 32}
          \<and> mpiDecode e (cfb_decrypt e key (take 16 (drop 64 (Body pkt))) (drop 80 (Body pkt))) 32
                = MpiReturn seckey check
          \<and> (seckey = None \<or> sha1 e (mpi e (the seckey)) \<noteq> check)
          \<longrightarrow> fst (Load e pkt (Some pw) k) = Some DecryptKeyErr)"
proof -
  obtain c where c: "Uint32 (drop 1 (Body pkt)) = Some c"
    using header_Uint32 [OF assms(1)] by blast
  note L = Load_body_after_header [OF assms(1) c]
  have A: "fst (Load e pkt None k) = Some DecryptKeyErr"
    using assms(2) by (simp add: Load_def L Load_encrypted_None)
  have B: "fst (Load e pkt (Some pw) k) = Some DecryptKeyErr"
    if "80 \<le> length (Body pkt) \<and> Body pkt ! 52 = 9 \<and> Body pkt ! 53 = 3 \<and> Body pkt ! 54 = 8
          \<and> s2k (sha256 e) pw (take 8 (drop 55 (Body pkt))) (decodeS2K (Body pkt ! 63)) = Some key
          \<and> length key \<in> {16, 24, 32}
          \<and> mpiDecode e (cfb_decrypt e key (take 16 (drop 64 (Body pkt))) (drop 80 (Body pkt))) 32
                = MpiReturn seckey check
          \<and> (seckey = None \<or> sha1 e (mpi e (the seckey)) \<noteq> check)"
    for pw key seckey check
  proof -
    have "fst (Load_encrypted e (Body pkt) (BodySpare pkt) (Some pw))
            = Inl (Returned (Some DecryptKeyErr))"
      using that by (intro Load_encrypted_mismatch [where key = key and seckey = seckey and check = check]) simp_all
    then obtain body' where "Load_encrypted e (Body pkt) (BodySpare pkt) (Some pw)
        = (Inl (Returned (Some DecryptKeyErr)), body')"
      by (cases "Load_encrypted e (Body pkt) (BodySpare pkt) (Some pw)") simp
    then show ?thesis
      using assms(2) by (simp add: Load_def L)
  qed
  show ?thesis
    using A B by blast
qed

lemma pkt1_facts:
  "header_ok pkt1" "Body pkt1 ! 51 = 254" "80 \<le> length (Body pkt1)"
  "Body pkt1 ! 52 = 9" "Body pkt1 ! 53 = 3" "Body pkt1 ! 54 = 8"
  "drop 80 (Body pkt1) = mpi_spec seed0 @ replicate 20 0"
  "mpiDecode_spec (mpi_spec seed0 @ replicate 20 0) 32 = MpiReturn (Some seed0) (replicate 20 0)"
  "sha1 env1 (mpi env1 seed0) \<noteq> replicate 20 0"
  "take 8 (drop 55 (Body pkt1)) = [1, 2, 3, 4, 5, 6, 7, 8]"
  by code_simp+

theorem Load_decrypt_key_error_witness:
  "header_ok pkt1 \<and> Body pkt1 ! 51 = 254
   \<and> fst (Load env1 pkt1 None key_new) = Some DecryptKeyErr
   \<and> fst (Load env1 pkt1 (Some [112, 119]) key_new) = Some DecryptKeyErr"
proof -
  have sha: "\<forall>x. length (sha256 env1 x) = 32"
    by (simp add: env1_def env0_def sum_digest_def)
  obtain key where key: "s2k (sha256 env1) [112, 119] (take 8 (drop 55 (Body pkt1)))
                             (decodeS2K (Body pkt1 ! 63)) = Some key" "length key = 32"
    using s2k_Some_length [OF sha, of "take 8 (drop 55 (Body pkt1))" "[112, 119]" "Body pkt1 ! 63"]
      pkt1_facts(10) by auto
  have dec: "mpiDecode env1 (cfb_decrypt env1 key (take 16 (drop 64 (Body pkt1))) (drop 80 (Body pkt1))) 32
               = MpiReturn (Some seed0) (replicate 20 0)"
    using pkt1_facts(7,8) by (simp add: env1_def env0_def)
  have bad: "Some seed0 = None \<or> sha1 env1 (mpi env1 (the (Some seed0))) \<noteq> replicate 20 0"
    using pkt1_facts(9) by simp
  from Load_decrypt_key_error [OF pkt1_facts(1,2), of env1 key_new]
  have "fst (Load env1 pkt1 None key_new) = Some DecryptKeyErr"
    and "fst (Load env1 pkt1 (Some [112, 119]) key_new) = Some DecryptKeyErr"
    using pkt1_facts(3-6) key dec bad by blast+
  then show ?thesis
    using pkt1_facts(1,2) by simp
qed





section \<open>Cleartext signatures: properties\<close>

lemma trim_loop_whitespace:
  assumes "set ws \<subseteq> {0x20, 0x09}"
  shows "trim_loop (xs @ ws) (int (length (xs @ ws)) - 1) = trim_loop xs (int (length xs) - 1)"
  using assms
proof (induction ws rule: rev_induct)
  case Nil
  then show ?case by simp
next
  case (snoc w ws)
  then have w: "w = 0x20 \<or> w = 0x09" and ws: "set ws \<subseteq> {0x20, 0x09}"
    by auto
  have "trim_loop (xs @ ws @ [w]) (int (length (xs @ ws @ [w])) - 1)
          = trim_loop (xs @ ws) (int (length (xs @ ws)) - 1)"
    using w by (subst trim_loop.simps) (auto simp: nth_append)
  then show ?case
    using snoc.IH [OF ws] by simp
qed

lemma trim_loop_done:
  assumes "xs \<noteq> []" and "last xs \<noteq> 0x20" and "last xs \<noteq> 0x09"
  shows "trim_loop xs (int (length xs) - 1) = xs"
proof -
  have "nat (int (length xs) - 1) = length xs - 1"
    by simp
  then have "xs ! nat (int (length xs) - 1) = last xs"
    using last_conv_nth [OF assms(1)] by simp
  then show ?thesis
    using assms by (subst trim_loop.simps) simp
qed

text \<open>
  C7, as amended. For the input line \<open>-- divider\<close>, with any spaces and tabs behind it, the
  line passed through is \<open>- -- divider\<close> followed by one linefeed, and the digest receives
  the trimmed line \<open>-- divider\<close> without the dash escape (after CR LF, if it is not the
  first line).
\<close>

theorem clearsign_dash_escapes_output_not_digest:
  assumes "set ws \<subseteq> {0x20, 0x09}"
  shows "clearsign_line (ascii ''-- divider'' @ ws) (hw, first, (out, Suc n))
           = Some (hw @ (if first then [] else [0x0d, 0x0a]) @ ascii ''-- divider'', False,
                   (out @ ascii ''- -- divider'' @ [0x0a], n))"
proof -
  have t: "trim_loop (ascii ''-- divider'' @ ws) (int (length (ascii ''-- divider'' @ ws)) - 1)
             = ascii ''-- divider''"
    unfolding trim_loop_whitespace [OF assms]
    by (rule trim_loop_done) (simp_all add: ascii_def)
  have e: "ascii ''- -- divider'' = [0x2d, 0x20] @ ascii ''-- divider''"
    "0 < length (ascii ''-- divider'')" "ascii ''-- divider'' ! 0 = 0x2d"
    by (simp_all add: ascii_def)
  show ?thesis
    unfolding clearsign_line_def prod.case Let_def t
    using e(2,3) by (simp add: pipe_write_def e(1))
qed

theorem clearsign_dash_escapes_output_not_digest_witness:
  "set [0x20, 0x09 :: byte] \<subseteq> {0x20, 0x09}
   \<and> clearsign_line (ascii ''-- divider'' @ [0x20, 0x09]) (ascii ''first line'', False, ([], Suc 0))
       = Some (ascii ''first line'' @ [0x0d, 0x0a] @ ascii ''-- divider'', False,
               (ascii ''- -- divider'' @ [0x0a], 0))"
proof -
  have h: "set [0x20, 0x09 :: byte] \<subseteq> {0x20, 0x09}"
    by simp
  show ?thesis
    using clearsign_dash_escapes_output_not_digest [OF h, of "ascii ''first line''" False "[]" 0] h
    by simp
qed

text \<open>
  C7 as stated fails: for the line \<open>-- divider\<close> the digest receives the ten bytes of
  \<open>-- divider\<close>, which do not contain the twelve bytes of the escaped line.
\<close>

theorem clearsign_digest_has_unescaped_line_counterexample:
  "clearsign_line (ascii ''-- divider'') ([], True, ([], 1))
     = Some (ascii ''-- divider'', False, (ascii ''- -- divider'' @ [0x0a], 0))
   \<and> ascii ''-- divider'' \<noteq> ascii ''- -- divider''
   \<and> length (ascii ''-- divider'') < length (ascii ''- -- divider'')"
  by code_simp

end
